theory Spec2Isabelle
  imports Complex_Main
begin

section \<open>Numbers and dates of the ledger\<close>

subsection \<open>Python's \<open>Decimal\<close> under the default context\<close>

text \<open>
  \<open>models.py\<close> computes with \<open>decimal.Decimal\<close> and never changes the context, so every
  arithmetic operation returns the exact result rounded to 28 significant digits, ties to
  the even digit (\<open>prec = 28\<close>, \<open>ROUND_HALF_EVEN\<close>). A \<open>Decimal\<close> is modelled by its
  numerical value, a rational number; comparisons are exact; the exponent limits of the
  context (\<open>Emax = 999999\<close>) are not modelled.
\<close>

type_synonym decimal = rat

definition pow10 :: "int \<Rightarrow> rat" where
  "pow10 k = (if 0 \<le> k then 10 ^ nat k else 1 / 10 ^ nat (- k))"

text \<open>The number of decimal digits of an integer \<open>n \<ge> 0\<close>.\<close>

function ndigits :: "int \<Rightarrow> nat" where
  "ndigits n = (if n < 10 then 1 else Suc (ndigits (n div 10)))"
  by pat_completeness auto
termination
  by (relation "measure nat") auto

declare ndigits.simps [simp del]

text \<open>The exponent of the leading digit of a positive number: \<open>\<lfloor>log\<^sub>1\<^sub>0 a\<rfloor>\<close>.\<close>

definition adjusted :: "rat \<Rightarrow> int" where
  "adjusted a =
     (if 1 \<le> a then int (ndigits \<lfloor>a\<rfloor>) - 1
      else - int (ndigits (\<lceil>1 / a\<rceil> - 1)))"

definition round_half_even :: "rat \<Rightarrow> int" where
  "round_half_even x =
     (let f = \<lfloor>x\<rfloor>; r = x - of_int f
      in if r < 1 / 2 then f
         else if 1 / 2 < r then f + 1
         else if even f then f else f + 1)"

definition prec :: int where
  "prec = 28"

definition ctx_round :: "rat \<Rightarrow> decimal" where
  "ctx_round q =
     (if q = 0 then 0
      else let k = adjusted \<bar>q\<bar> - (prec - 1)
           in sgn q * of_int (round_half_even (\<bar>q\<bar> / pow10 k)) * pow10 k)"

definition dadd :: "decimal \<Rightarrow> decimal \<Rightarrow> decimal" where
  "dadd x y = ctx_round (x + y)"

definition dsub :: "decimal \<Rightarrow> decimal \<Rightarrow> decimal" where
  "dsub x y = ctx_round (x - y)"

definition dmul :: "decimal \<Rightarrow> decimal \<Rightarrow> decimal" where
  "dmul x y = ctx_round (x * y)"

text \<open>
  Division by zero raises in Python; every caller below tests the divisor first and
  returns the error (\<open>div_error\<close>).
\<close>

definition ddiv :: "decimal \<Rightarrow> decimal \<Rightarrow> decimal" where
  "ddiv x y = ctx_round (x / y)"

definition dneg :: "decimal \<Rightarrow> decimal" where
  "dneg x = ctx_round (- x)"

definition dabs :: "decimal \<Rightarrow> decimal" where
  "dabs x = ctx_round \<bar>x\<bar>"

text \<open>\<open>sum(xs)\<close> starts from the integer 0 and adds from the left.\<close>

definition dsum :: "decimal list \<Rightarrow> decimal" where
  "dsum xs = foldl dadd 0 xs"

text \<open>\<open>int(d)\<close> truncates towards zero.\<close>

definition int_of_decimal :: "decimal \<Rightarrow> int" where
  "int_of_decimal x = (if 0 \<le> x then \<lfloor>x\<rfloor> else \<lceil>x\<rceil>)"

subsection \<open>\<open>float(d)\<close>: the nearest binary64 number\<close>

definition pow2 :: "int \<Rightarrow> rat" where
  "pow2 k = (if 0 \<le> k then 2 ^ nat k else 1 / 2 ^ nat (- k))"

function nbits :: "int \<Rightarrow> nat" where
  "nbits n = (if n < 2 then 1 else Suc (nbits (n div 2)))"
  by pat_completeness auto
termination
  by (relation "measure nat") auto

declare nbits.simps [simp del]

definition ilog2 :: "rat \<Rightarrow> int" where
  "ilog2 a =
     (if 1 \<le> a then int (nbits \<lfloor>a\<rfloor>) - 1
      else - int (nbits (\<lceil>1 / a\<rceil> - 1)))"

text \<open>
  The value of \<open>float(d)\<close>: 53 significant bits, ties to even, the spacing of the
  subnormal numbers below \<open>2\<^sup>-\<^sup>1\<^sup>0\<^sup>2\<^sup>2\<close>; \<open>None\<close> where the result is an infinity.
\<close>

definition float_of :: "decimal \<Rightarrow> rat option" where
  "float_of q =
     (if q = 0 then Some 0
      else let e = max (ilog2 \<bar>q\<bar> - 52) (- 1074);
               r = of_int (round_half_even (\<bar>q\<bar> / pow2 e)) * pow2 e
           in if pow2 1024 \<le> r then None else Some (sgn q * r))"

text \<open>
  \<open>math.copysign(x, y)\<close> converts both arguments to \<open>float\<close> and returns a \<open>float\<close>
  with the magnitude of the first and the sign of the second; only \<open>x \<ge> 0\<close> and
  \<open>y \<noteq> 0\<close> reach it below.
\<close>

definition copysign :: "decimal \<Rightarrow> decimal \<Rightarrow> rat option" where
  "copysign x y =
     (case float_of x of
        None \<Rightarrow> None
      | Some m \<Rightarrow> Some (if y < 0 then - \<bar>m\<bar> else \<bar>m\<bar>))"

subsection \<open>\<open>datetime\<close> and \<open>timedelta\<close>\<close>

text \<open>
  A \<open>datetime\<close> is the number of microseconds since the midnight before 0001-01-01
  (the day of ordinal 0), a \<open>timedelta\<close> a number of microseconds.
\<close>

type_synonym datetime = int

definition is_leap :: "int \<Rightarrow> bool" where
  "is_leap y = (y mod 4 = 0 \<and> (y mod 100 \<noteq> 0 \<or> y mod 400 = 0))"

definition days_before_year :: "int \<Rightarrow> int" where
  "days_before_year y = (y - 1) * 365 + (y - 1) div 4 - (y - 1) div 100 + (y - 1) div 400"

definition days_before_month :: "int \<Rightarrow> int \<Rightarrow> int" where
  "days_before_month y m =
     [0, 31, 59, 90, 120, 151, 181, 212, 243, 273, 304, 334] ! nat (m - 1)
     + (if 2 < m \<and> is_leap y then 1 else 0)"

definition ymd2ord :: "int \<Rightarrow> int \<Rightarrow> int \<Rightarrow> int" where
  "ymd2ord y m d = days_before_year y + days_before_month y m + d"

definition day_us :: int where
  "day_us = 86400000000"

text \<open>\<open>datetime(y, m, d)\<close> for a valid calendar date.\<close>

definition mkdate :: "int \<Rightarrow> int \<Rightarrow> int \<Rightarrow> datetime" where
  "mkdate y m d = ymd2ord y m d * day_us"

definition datetime_min :: datetime where
  "datetime_min = mkdate 1 1 1"

definition datetime_max :: datetime where
  "datetime_max = mkdate 9999 12 31 + (day_us - 1)"

definition timedelta_days :: "int \<Rightarrow> int" where
  "timedelta_days n = n * day_us"

text \<open>\<open>td.days\<close> of the difference of two datetimes (floor division, as Python normalises).\<close>

definition days :: "int \<Rightarrow> int" where
  "days td = td div day_us"

definition microsecond :: "datetime \<Rightarrow> int" where
  "microsecond dt = dt mod 1000000"

section \<open>The data model\<close>

text \<open>
  The classes of \<open>ofxtools.ofxalchemy.models\<close> that \<open>models.py\<close> imports are given by
  the attributes it reads. \<open>INVACCTFROM\<close> and \<open>SECINFO\<close> are looked up by their primary
  keys \<open>(brokerid, acctid)\<close> and \<open>(uniqueid, uniqueidtype)\<close>.
\<close>

record INVACCTFROM =
  brokerid :: string
  acctid :: string

record SECINFO =
  uniqueidtype :: string
  uniqueid :: string
  ticker :: string
  secname :: string

text \<open>The subclasses of \<open>INVTRAN\<close> that \<open>isinstance\<close> and the broker table tell apart.\<close>

datatype trantype = INVBUYSELL | RETOFCAP | SPLIT | TRANSFER | INCOME | INVEXPENSE | OTHERTRAN

record INVTRAN =
  invtran_id :: nat
  trantype :: trantype
  fitid :: string
  dttrade :: datetime
  acctfrom :: INVACCTFROM
  secinfo :: SECINFO
  units :: decimal
  total :: decimal
  oldunits :: decimal
  newunits :: decimal
  numerator :: decimal
  denominator :: decimal
  memo :: string

text \<open>
  A \<open>Lot\<close> row. Its \<open>id\<close> is its position in the table \<open>lots\<close> of the session (rows are
  only ever appended); \<open>opener\<close>, \<open>closer\<close>, \<open>starter\<close> and \<open>ender\<close> hold the id of the
  transaction (the columns \<open>opener_id\<close>, ...), \<open>predecessor\<close> the id of a lot.
\<close>

record Lot =
  dtopen :: datetime
  dtclose :: "datetime option"
  dtstart :: datetime
  dtend :: "datetime option"
  units :: decimal
  cost :: decimal
  washcost :: decimal
  account :: INVACCTFROM
  security :: SECINFO
  opener :: "nat option"
  closer :: "nat option"
  starter :: "nat option"
  ender :: "nat option"
  predecessor :: "nat option"

record Gain =
  proceeds :: decimal
  washloss :: decimal
  lot_id :: nat
  transaction :: INVTRAN

text \<open>
  The database behind \<open>DBSession\<close>: one list per table, in insertion (id) order;
  \<open>ofxlogs\<close> lists the \<open>invtran_id\<close> of every \<open>OfxLog\<close> row. The \<open>CheckConstraint\<close>s of
  \<open>Lot\<close> are tested by the database when it writes a row, not by the functions below, and
  are left out.
\<close>

record DBSession =
  invacctfroms :: "INVACCTFROM list"
  secinfos :: "SECINFO list"
  invtrans :: "INVTRAN list"
  lots :: "Lot list"
  gains :: "Gain list"
  ofxlogs :: "nat list"

text \<open>
  The exceptions the functions raise. An \<open>AssertionError\<close> carries the text of the
  failed assertion. \<open>InfiniteUnits\<close> marks the one place where the model stops: a
  \<open>float\<close> infinity turned into a \<open>Decimal\<close>.
\<close>

datatype error =
    ValueError
  | AssertionError string
  | ZeroDivisionError
  | InvalidOperation
  | MultipleResultsFound
  | InfiniteUnits

text \<open>
  A \<open>Decimal\<close> division by zero raises \<open>DivisionByZero\<close>, a \<open>ZeroDivisionError\<close>, when
  the dividend is not zero, and \<open>InvalidOperation\<close> when it is.
\<close>

definition div_error :: "decimal \<Rightarrow> error" where
  "div_error x = (if x = 0 then InvalidOperation else ZeroDivisionError)"

definition empty_session :: DBSession where
  "empty_session =
     \<lparr>invacctfroms = [], secinfos = [], invtrans = [], lots = [], gains = [], ofxlogs = []\<rparr>"

text \<open>\<open>Lot(...)\<close> with the columns the caller leaves out at their defaults.\<close>

definition new_Lot ::
  "INVACCTFROM \<Rightarrow> SECINFO \<Rightarrow> decimal \<Rightarrow> decimal \<Rightarrow> datetime \<Rightarrow> nat option \<Rightarrow> datetime
     \<Rightarrow> nat option \<Rightarrow> Lot" where
  "new_Lot a sec u c dto opn dts st =
     \<lparr>dtopen = dto, dtclose = None, dtstart = dts, dtend = None, units = u, cost = c,
      washcost = 0, account = a, security = sec, opener = opn, closer = None,
      starter = st, ender = None, predecessor = None\<rparr>"

definition new_Gain :: "decimal \<Rightarrow> nat \<Rightarrow> INVTRAN \<Rightarrow> Gain" where
  "new_Gain p l t = \<lparr>proceeds = p, washloss = 0, lot_id = l, transaction = t\<rparr>"

definition add_lot :: "DBSession \<Rightarrow> Lot \<Rightarrow> DBSession" where
  "add_lot s l = s\<lparr>lots := lots s @ [l]\<rparr>"

definition add_gain :: "DBSession \<Rightarrow> Gain \<Rightarrow> DBSession" where
  "add_gain s g = s\<lparr>gains := gains s @ [g]\<rparr>"

definition set_lot :: "DBSession \<Rightarrow> nat \<Rightarrow> Lot \<Rightarrow> DBSession" where
  "set_lot s i l = s\<lparr>lots := (lots s)[i := l]\<rparr>"

definition set_gain :: "DBSession \<Rightarrow> nat \<Rightarrow> Gain \<Rightarrow> DBSession" where
  "set_gain s i g = s\<lparr>gains := (gains s)[i := g]\<rparr>"

text \<open>\<open>DBSession.add(invtran)\<close>: a transaction the session already holds is left alone.\<close>

definition add_invtran :: "DBSession \<Rightarrow> INVTRAN \<Rightarrow> DBSession" where
  "add_invtran s t = (if t \<in> set (invtrans s) then s else s\<lparr>invtrans := invtrans s @ [t]\<rparr>)"

section \<open>\<open>Lot\<close>: queries\<close>

text \<open>
  \<open>Lot.unitCost\<close> is \<open>cost / units\<close>; the callers test \<open>units = 0\<close> first.
\<close>

definition unitCost :: "Lot \<Rightarrow> decimal" where
  "unitCost l = ddiv (cost l) (units l)"

text \<open>
  \<open>Lot.asOf\<close>: the ids of the lots current at \<open>dtasof\<close>, ordered by \<open>(dtopen, id)\<close>.
  Conditions written in a query (\<open>cls.units * invtran.units < 0\<close>, \<open>cls.units > 0\<close>)
  are evaluated by the database; they are modelled by the exact value.
\<close>

definition current_at :: "datetime \<Rightarrow> Lot \<Rightarrow> bool" where
  "current_at dtasof l =
     (dtstart l \<le> dtasof \<and> (case dtend l of None \<Rightarrow> True | Some e \<Rightarrow> dtasof < e))"

definition opt_matches :: "'a option \<Rightarrow> 'a \<Rightarrow> bool" where
  "opt_matches f x = (case f of None \<Rightarrow> True | Some y \<Rightarrow> x = y)"

definition asOf ::
  "DBSession \<Rightarrow> datetime \<Rightarrow> INVACCTFROM option \<Rightarrow> SECINFO option \<Rightarrow> nat list" where
  "asOf s dtasof acct sec =
     sort_key (\<lambda>i. dtopen (lots s ! i))
       (filter (\<lambda>i. current_at dtasof (lots s ! i)
                   \<and> opt_matches acct (account (lots s ! i))
                   \<and> opt_matches sec (security (lots s ! i)))
          [0..<length (lots s)])"

definition longsAsOf ::
  "DBSession \<Rightarrow> datetime \<Rightarrow> INVACCTFROM option \<Rightarrow> SECINFO option \<Rightarrow> nat list" where
  "longsAsOf s dtasof acct sec =
     filter (\<lambda>i. 0 < units (lots s ! i)) (asOf s dtasof acct sec)"

section \<open>\<open>OfxLog\<close>\<close>

definition get_or_create :: "DBSession \<Rightarrow> INVTRAN \<Rightarrow> DBSession \<times> bool" where
  "get_or_create s invtran =
     (if invtran_id invtran \<in> set (ofxlogs s) then (s, False)
      else (s\<lparr>ofxlogs := ofxlogs s @ [invtran_id invtran]\<rparr>, True))"

section \<open>\<open>Lot.trade\<close>\<close>

text \<open>
  The end of the loop body of \<open>trade\<close>: the lot is closed by the trade and a \<open>Gain\<close>
  with \<open>proceeds = lot.units / invtran.units * -invtran.total\<close> is added.
\<close>

definition trade_close :: "DBSession \<Rightarrow> nat \<Rightarrow> INVTRAN \<Rightarrow> error + DBSession" where
  "trade_close s i invtran =
     (let lot = (lots s ! i)
            \<lparr>dtclose := Some (dttrade invtran), closer := Some (invtran_id invtran),
             dtend := Some (dttrade invtran), ender := Some (invtran_id invtran)\<rparr>
      in if INVTRAN.units invtran = 0 then Inl (div_error (units lot))
         else Inr (add_gain (set_lot s i lot)
                (new_Gain (dmul (ddiv (units lot) (INVTRAN.units invtran)) (dneg (total invtran)))
                   i invtran)))"

text \<open>
  The loop \<open>for lot in openLots\<close> over the result of the query, with the running
  \<open>units\<close> of the trade; it returns the units left over. \<open>DBSession.commit()\<close>, after the
  residual lot is added, writes the session to the database and changes no row of the
  model: the values read afterwards are the \<open>Decimal\<close>s the code has computed. What a
  database backend does to a \<open>Numeric\<close> column when it stores it (SQLite keeps a binary
  float and returns it rounded to 10 decimal places) is outside the model.
\<close>

fun trade_loop ::
  "INVTRAN \<Rightarrow> nat list \<Rightarrow> decimal \<Rightarrow> DBSession \<Rightarrow> error + (decimal \<times> DBSession)" where
  "trade_loop invtran [] u s = Inr (u, s)"
| "trade_loop invtran (i # rest) u s =
     (if u = 0 then Inr (u, s)
      else let lot = lots s ! i
           in if dabs (units lot) \<le> dabs u
              then (case trade_close s i invtran of
                      Inl e \<Rightarrow> Inl e
                    | Inr s' \<Rightarrow> trade_loop invtran rest (dadd u (units lot)) s')
              else if units lot = 0 then Inl (div_error (cost lot))
              else let unitsOpen = dadd u (units lot);
                       costOpen = dmul unitsOpen (unitCost lot);
                       lot' = lot\<lparr>units := dneg u, cost := dsub (cost lot) costOpen\<rparr>;
                       openLot = new_Lot (account lot) (security lot) unitsOpen costOpen
                                   (dtopen lot) (opener lot) (dtstart lot) (starter lot)
                   in (case trade_close (add_lot (set_lot s i lot') openLot) i invtran of
                         Inl e \<Rightarrow> Inl e
                       | Inr s' \<Rightarrow> trade_loop invtran rest 0 s'))"

definition trade_open :: "DBSession \<Rightarrow> INVTRAN \<Rightarrow> decimal \<Rightarrow> DBSession" where
  "trade_open s invtran u =
     (if u \<noteq> 0
      then add_lot s
             (new_Lot (acctfrom invtran) (secinfo invtran) u (dneg (total invtran))
                (dttrade invtran) (Some (invtran_id invtran)) (dttrade invtran)
                (Some (invtran_id invtran)))
      else s)"

definition trade :: "DBSession \<Rightarrow> INVTRAN \<Rightarrow> error + DBSession" where
  "trade s0 invtran =
     (if trantype invtran \<noteq> INVBUYSELL then Inl ValueError
      else let s = fst (get_or_create (add_invtran s0 invtran) invtran);
               created = snd (get_or_create (add_invtran s0 invtran) invtran)
           in if \<not> created then Inr s
              else let openLots =
                         filter (\<lambda>i. units (lots s ! i) * INVTRAN.units invtran < 0)
                           (asOf s (dttrade invtran) (Some (acctfrom invtran))
                              (Some (secinfo invtran)))
                   in (case trade_loop invtran openLots (INVTRAN.units invtran) s of
                         Inl e \<Rightarrow> Inl e
                       | Inr r \<Rightarrow> Inr (trade_open (snd r) invtran (fst r))))"

section \<open>\<open>Lot.returnOfCapital\<close>\<close>

text \<open>The body of the loop \<open>for lot in lots\<close>; the new lot gets the next id.\<close>

definition retofcap_step :: "INVTRAN \<Rightarrow> decimal \<Rightarrow> nat \<Rightarrow> DBSession \<Rightarrow> DBSession" where
  "retofcap_step invtran unitRetofcap i s =
     (let lot = lots s ! i;
          costAdj = dmul (units lot) unitRetofcap;
          adjCost = dsub (cost lot) costAdj;
          lot' = lot\<lparr>ender := Some (invtran_id invtran), dtend := Some (dttrade invtran)\<rparr>;
          newLot = (new_Lot (account lot) (security lot) (units lot) adjCost (dtopen lot)
                      (opener lot) (dttrade invtran) (Some (invtran_id invtran)))
                     \<lparr>washcost := washcost lot, predecessor := Some i\<rparr>;
          n = length (lots s);
          s' = add_lot (set_lot s i lot') newLot
      in if adjCost < 0
         then add_gain (set_lot s' n (newLot\<lparr>cost := 0\<rparr>)) (new_Gain (dneg adjCost) n invtran)
         else s')"

definition returnOfCapital :: "DBSession \<Rightarrow> INVTRAN \<Rightarrow> bool \<Rightarrow> error + DBSession" where
  "returnOfCapital s0 invtran checklog =
     (let s = fst (get_or_create s0 invtran);
          created = snd (get_or_create s0 invtran)
      in if checklog \<and> \<not> created then Inr s
         else let lots' = longsAsOf s (dttrade invtran) None (Some (secinfo invtran));
                  totalUnits = dsum (map (\<lambda>i. units (lots s ! i)) lots')
              in if totalUnits = 0 then Inl (AssertionError ''totalUnits'')
                 else Inr (fold (retofcap_step invtran (ddiv (total invtran) totalUnits))
                             lots' s))"

section \<open>\<open>Lot.split\<close>\<close>

definition split_step :: "INVTRAN \<Rightarrow> decimal \<Rightarrow> nat \<Rightarrow> decimal \<times> DBSession \<Rightarrow> decimal \<times> DBSession" where
  "split_step invtran ratio i acc =
     (let newUnits = fst acc; s = snd acc;
          lot = lots s ! i;
          lot' = lot\<lparr>ender := Some (invtran_id invtran), dtend := Some (dttrade invtran)\<rparr>;
          newLot = (new_Lot (account lot) (security lot) (dmul (units lot) ratio) (cost lot)
                      (dtopen lot) (opener lot) (dttrade invtran) (Some (invtran_id invtran)))
                     \<lparr>washcost := washcost lot, predecessor := Some i\<rparr>
      in (dadd newUnits (units newLot), add_lot (set_lot s i lot') newLot))"

definition split :: "DBSession \<Rightarrow> INVTRAN \<Rightarrow> error + DBSession" where
  "split s0 invtran =
     (let s = fst (get_or_create s0 invtran);
          created = snd (get_or_create s0 invtran)
      in if \<not> created then Inr s
         else if oldunits invtran = 0 then Inl (div_error (newunits invtran))
         else let ratio = ddiv (newunits invtran) (oldunits invtran)
              in if denominator invtran = 0 then Inl (div_error (numerator invtran))
                 else if ratio \<noteq> ddiv (numerator invtran) (denominator invtran)
                 then Inl ValueError
                 else let lots' = asOf s (dttrade invtran) None (Some (secinfo invtran));
                          r = fold (split_step invtran ratio) lots' (0, s)
                      in if dabs (dsub (fst r) (newunits invtran)) < 1 / 100000000
                         then Inr (snd r)
                         else Inl (AssertionError
                                ''abs(newUnits - invtran.newunits) < Decimal(0.00000001)''))"

section \<open>The broker quirks: \<open>IBKR.doTransfer\<close> and \<open>IBKR.doIncome\<close>\<close>

text \<open>
  What \<open>models.py\<close> takes from outside the repository and applies to memo strings: the two
  compiled regular expressions (the result of \<open>match\<close>, as the groups \<open>memo\<close> and
  \<open>uniqueid\<close>, or \<open>None\<close>), the \<open>LIKE\<close> of the database and \<open>str.lower\<close>. They are
  parameters of the functions that use them.
\<close>

record externals =
  transferMemoRE :: "string \<Rightarrow> (string \<times> string) option"
  retofcapMemoRE :: "string \<Rightarrow> string option"
  sql_like :: "string \<Rightarrow> string \<Rightarrow> bool"
  lower :: "string \<Rightarrow> string"

definition one_or_none :: "'a list \<Rightarrow> error + 'a option" where
  "one_or_none xs =
     (case xs of [] \<Rightarrow> Inr None | [x] \<Rightarrow> Inr (Some x) | _ \<Rightarrow> Inl MultipleResultsFound)"

text \<open>\<open>p in s\<close> for strings.\<close>

fun contains :: "string \<Rightarrow> string \<Rightarrow> bool" where
  "contains p [] = (p = [])"
| "contains p (c # cs) = (take (length p) (c # cs) = p \<or> contains p cs)"

definition transfer_step ::
  "INVTRAN \<Rightarrow> INVTRAN \<Rightarrow> INVTRAN \<Rightarrow> SECINFO \<Rightarrow> decimal \<Rightarrow> nat \<Rightarrow> DBSession \<Rightarrow> DBSession" where
  "transfer_step invtran transferOut transferIn newSecurity ratio i s =
     (let lot = lots s ! i;
          lot' = lot\<lparr>ender := Some (invtran_id transferOut), dtend := Some (dttrade invtran)\<rparr>;
          newLot = (new_Lot (account lot) newSecurity (dmul (units lot) ratio) (cost lot)
                      (dtopen lot) (opener lot) (dttrade invtran)
                      (Some (invtran_id transferIn)))
                     \<lparr>washcost := washcost lot, predecessor := Some i\<rparr>
      in add_lot (set_lot s i lot') newLot)"

text \<open>From \<open>ratio = transferIn.units / units\<close> to the end of \<open>doTransfer\<close>.\<close>

definition transfer_lots ::
  "DBSession \<Rightarrow> INVTRAN \<Rightarrow> INVTRAN \<Rightarrow> INVTRAN \<Rightarrow> SECINFO \<Rightarrow> decimal \<Rightarrow> nat list
     \<Rightarrow> error + DBSession" where
  "transfer_lots s invtran transferOut transferIn newSecurity u lots' =
     (if u = 0 then Inl (div_error (INVTRAN.units transferIn))
      else Inr (fold (transfer_step invtran transferOut transferIn newSecurity
                        (ddiv (INVTRAN.units transferIn) u)) lots' s))"

text \<open>The branch \<open>if twin:\<close> of \<open>doTransfer\<close>.\<close>

definition transfer_pair :: "DBSession \<Rightarrow> INVTRAN \<Rightarrow> INVTRAN \<Rightarrow> error + DBSession" where
  "transfer_pair s0 invtran twin =
     (let s = fst (get_or_create s0 twin);
          created = snd (get_or_create s0 twin)
      in if \<not> created then Inl (AssertionError ''created'')
         else if \<not> dmul (INVTRAN.units invtran) (INVTRAN.units twin) < 0
         then Inl (AssertionError ''invtran.units * twin.units < 0'')
         else let lots1 = asOf s (dttrade invtran) (Some (acctfrom invtran))
                            (Some (secinfo invtran));
                  units1 = dsum (map (\<lambda>i. units (lots s ! i)) lots1)
              in if lots1 \<noteq> [] \<and> INVTRAN.units invtran = dneg units1
                 then transfer_lots s invtran invtran twin (secinfo twin) units1 lots1
                 else let lots2 = asOf s (dttrade invtran) (Some (acctfrom invtran))
                                    (Some (secinfo twin));
                          units2 = dsum (map (\<lambda>i. units (lots s ! i)) lots2)
                      in if lots2 = [] then Inr s
                         else if units2 \<noteq> dneg (INVTRAN.units twin)
                         then Inl (AssertionError ''units == -twin.units'')
                         else transfer_lots s invtran twin invtran (secinfo invtran) units2
                                lots2)"

definition doTransfer :: "externals \<Rightarrow> DBSession \<Rightarrow> INVTRAN \<Rightarrow> error + DBSession" where
  "doTransfer x s0 invtran =
     (if trantype invtran \<noteq> TRANSFER then Inl ValueError
      else let s = fst (get_or_create s0 invtran);
               created = snd (get_or_create s0 invtran)
           in if \<not> created then Inr s
              else (case transferMemoRE x (memo invtran) of
                      None \<Rightarrow> Inl (AssertionError ''match'')
                    | Some m \<Rightarrow>
                        if snd m \<noteq> uniqueid (secinfo invtran)
                        then Inl (AssertionError
                               ''match.group(uniqueid) == invtran.secinfo.uniqueid'')
                        else if fst m = [] then Inl (AssertionError ''memo'')
                        else (case one_or_none
                                     (filter (\<lambda>t. trantype t = TRANSFER
                                                \<and> invtran_id t \<noteq> invtran_id invtran
                                                \<and> acctfrom t = acctfrom invtran
                                                \<and> dttrade t = dttrade invtran
                                                \<and> sql_like x (memo t) (fst m @ ''%''))
                                        (invtrans s)) of
                                Inl e \<Rightarrow> Inl e
                              | Inr None \<Rightarrow> Inr s
                              | Inr (Some twin) \<Rightarrow> transfer_pair s invtran twin)))"

definition doIncome :: "externals \<Rightarrow> DBSession \<Rightarrow> INVTRAN \<Rightarrow> error + DBSession" where
  "doIncome x s0 invtran =
     (if trantype invtran \<noteq> INCOME then Inl ValueError
      else let s = fst (get_or_create s0 invtran);
               created = snd (get_or_create s0 invtran)
           in if \<not> created then Inr s
              else if \<not> contains ''return of capital'' (lower x (memo invtran)) then Inr s
              else (case retofcapMemoRE x (memo invtran) of
                      None \<Rightarrow> Inl (AssertionError ''match'')
                    | Some m \<Rightarrow>
                        (case filter (\<lambda>t. trantype t = INVEXPENSE
                                         \<and> dttrade t = dttrade invtran
                                         \<and> total t = dneg (total invtran)
                                         \<and> sql_like x (memo t) (m @ ''%''))
                                (sort_key invtran_id (invtrans s)) of
                           reversal # _ \<Rightarrow> Inr (fst (get_or_create s reversal))
                         | [] \<Rightarrow> returnOfCapital s invtran False)))"

section \<open>The driver: \<open>Lot.doInvtran\<close> and \<open>Lot.doInvtrans\<close>\<close>

text \<open>
  \<open>brokerquirks\<close> has one entry, for the broker \<open>4705\<close>, with the handlers of the classes
  \<open>TRANSFER\<close> and \<open>INCOME\<close>.
\<close>

definition doInvtran :: "externals \<Rightarrow> DBSession \<Rightarrow> INVTRAN \<Rightarrow> error + DBSession" where
  "doInvtran x s invtran =
     (if brokerid (acctfrom invtran) = ''4705'' \<and> trantype invtran = TRANSFER
      then doTransfer x s invtran
      else if brokerid (acctfrom invtran) = ''4705'' \<and> trantype invtran = INCOME
      then doIncome x s invtran
      else (case trantype invtran of
              INVBUYSELL \<Rightarrow> trade s invtran
            | RETOFCAP \<Rightarrow> returnOfCapital s invtran True
            | SPLIT \<Rightarrow> split s invtran
            | _ \<Rightarrow> Inr s))"

fun doInvtrans_loop :: "externals \<Rightarrow> INVTRAN list \<Rightarrow> DBSession \<Rightarrow> error + DBSession" where
  "doInvtrans_loop x [] s = Inr s"
| "doInvtrans_loop x (invtran # rest) s =
     (case doInvtran x s invtran of
        Inl e \<Rightarrow> Inl e
      | Inr s' \<Rightarrow> doInvtrans_loop x rest s')"

definition or_default :: "'a option \<Rightarrow> 'a \<Rightarrow> 'a" where
  "or_default v d = (case v of None \<Rightarrow> d | Some y \<Rightarrow> y)"

text \<open>
  The query of \<open>doInvtrans\<close>: the transactions of the window by \<open>(dttrade, id)\<close>. The
  arguments \<open>dtstart\<close> and \<open>dtend\<close> of the source are called \<open>wstart\<close> and \<open>wend\<close>.
\<close>

definition invtrans_between :: "DBSession \<Rightarrow> datetime \<Rightarrow> datetime \<Rightarrow> INVTRAN list" where
  "invtrans_between s wstart wend =
     sort_key dttrade
       (sort_key invtran_id
          (filter (\<lambda>t. wstart \<le> dttrade t \<and> dttrade t \<le> wend) (invtrans s)))"

definition doInvtrans ::
  "externals \<Rightarrow> DBSession \<Rightarrow> datetime option \<Rightarrow> datetime option \<Rightarrow> error + DBSession" where
  "doInvtrans x s wstart wend =
     doInvtrans_loop x
       (invtrans_between s (or_default wstart datetime_min) (or_default wend datetime_max)) s"

section \<open>\<open>Gain\<close>: derived values\<close>

definition Gain_units :: "DBSession \<Rightarrow> Gain \<Rightarrow> decimal" where
  "Gain_units s g = units (lots s ! lot_id g)"

definition Gain_cost :: "DBSession \<Rightarrow> Gain \<Rightarrow> decimal" where
  "Gain_cost s g = cost (lots s ! lot_id g)"

definition Gain_value :: "DBSession \<Rightarrow> Gain \<Rightarrow> decimal" where
  "Gain_value s g = dsub (proceeds g) (Gain_cost s g)"

definition Gain_dtopen :: "DBSession \<Rightarrow> Gain \<Rightarrow> datetime" where
  "Gain_dtopen s g = dtopen (lots s ! lot_id g)"

definition Gain_dtclose :: "Gain \<Rightarrow> datetime" where
  "Gain_dtclose g = dttrade (transaction g)"

definition isLongTerm :: "DBSession \<Rightarrow> Gain \<Rightarrow> bool" where
  "isLongTerm s g =
     (if Gain_units s g < 0 then False
      else 365 < days (Gain_dtclose g - Gain_dtopen s g))"

section \<open>\<open>Gain.doWashSale\<close>\<close>

text \<open>
  \<open>replacementLots\<close> is a query object, run each time the code iterates over it: once for
  the tally and once, on the session as it is then, for the loop. Its parameters
  (\<open>self.lot.id\<close>, the account and security, \<open>self.units\<close>, \<open>self.lot.dtclose\<close>) are
  evaluated when the query is built. Rows with equal \<open>dtopen\<close> come in id order.
\<close>

definition replacementLots ::
  "DBSession \<Rightarrow> nat \<Rightarrow> INVACCTFROM \<Rightarrow> SECINFO \<Rightarrow> decimal \<Rightarrow> datetime \<Rightarrow> nat list" where
  "replacementLots s lotid acct sec u dtc =
     sort_key (\<lambda>i. dtopen (lots s ! i))
       (filter (\<lambda>i. i \<noteq> lotid
                   \<and> account (lots s ! i) = acct
                   \<and> security (lots s ! i) = sec
                   \<and> 0 < units (lots s ! i) * u
                   \<and> washcost (lots s ! i) = 0
                   \<and> dtc - timedelta_days 30 \<le> dtopen (lots s ! i)
                   \<and> dtopen (lots s ! i) \<le> dtc + timedelta_days 30)
          [0..<length (lots s)])"

text \<open>\<open>lot.gains\<close>: the ids of the gains of a lot.\<close>

definition lot_gains :: "DBSession \<Rightarrow> nat \<Rightarrow> nat list" where
  "lot_gains s i = filter (\<lambda>g. lot_id (gains s ! g) = i) [0..<length (gains s)]"

text \<open>
  The sign-agnostic minimum:
  \<open>Decimal(math.copysign(min(abs(replacementUnits), abs(lot.units)), replacementUnits))\<close>.
  \<open>Decimal(f)\<close> of a \<open>float\<close> is exact.
\<close>

definition effective_units :: "decimal \<Rightarrow> decimal \<Rightarrow> decimal option" where
  "effective_units replacementUnits lotUnits =
     copysign (min (dabs replacementUnits) (dabs lotUnits)) replacementUnits"

text \<open>
  \<open>Lot(...)\<close> of the unwashed part of a lot that is split: the dates and transactions of
  the lot it is split from.
\<close>

definition unwashed_Lot :: "Lot \<Rightarrow> decimal \<Rightarrow> decimal \<Rightarrow> Lot" where
  "unwashed_Lot lot unwashedUnits unwashedCost =
     \<lparr>dtopen = dtopen lot, dtclose = dtclose lot, dtstart = dtstart lot, dtend = dtend lot,
      units = unwashedUnits, cost = unwashedCost, washcost = 0, account = account lot,
      security = security lot, opener = opener lot, closer = closer lot,
      starter = starter lot, ender = ender lot, predecessor = None\<rparr>"

text \<open>
  The loop over \<open>lot.gains\<close> of the loss lot, after it is cut down to the washed units:
  \<open>self\<close> is the id of the wash sale gain, \<open>n\<close> the id of the unwashed lot.
\<close>

fun loss_gains_loop ::
  "nat \<Rightarrow> decimal \<Rightarrow> nat \<Rightarrow> decimal \<Rightarrow> nat list \<Rightarrow> DBSession \<Rightarrow> error + DBSession" where
  "loss_gains_loop self washedProceeds n unwashedUnits [] s = Inr s"
| "loss_gains_loop self washedProceeds n unwashedUnits (g # rest) s =
     (let gain = gains s ! g;
          tr = transaction gain
      in if dneg (INVTRAN.units tr) = 0 then Inl (div_error (units (lots s ! lot_id gain)))
         else let p = dmul (ddiv (units (lots s ! lot_id gain)) (dneg (INVTRAN.units tr)))
                        (total tr)
              in if g = self \<and> \<not> dabs (dsub p washedProceeds) < 1 / 100000000
                 then Inl (AssertionError
                        ''abs(proceeds-washedProceeds)<Decimal(0.00000001)'')
                 else loss_gains_loop self washedProceeds n unwashedUnits rest
                        (add_gain (set_gain s g (gain\<lparr>proceeds := p\<rparr>))
                           (new_Gain (dmul (ddiv unwashedUnits (dneg (INVTRAN.units tr)))
                                        (total tr)) n tr)))"

text \<open>The loop over \<open>lot.gains\<close> of a replacement lot that is split; \<open>n\<close> is the new lot.\<close>

fun replacement_gains_loop :: "nat \<Rightarrow> nat list \<Rightarrow> DBSession \<Rightarrow> error + DBSession" where
  "replacement_gains_loop n [] s = Inr s"
| "replacement_gains_loop n (g # rest) s =
     (let gain = gains s ! g;
          tr = transaction gain
      in if dneg (INVTRAN.units tr) = 0 then Inl (div_error (units (lots s ! lot_id gain)))
         else replacement_gains_loop n rest
                (add_gain
                   (set_gain s g
                      (gain\<lparr>proceeds :=
                              dmul (ddiv (units (lots s ! lot_id gain))
                                      (dneg (INVTRAN.units tr))) (total tr)\<rparr>))
                   (new_Gain (dmul (ddiv (units (lots s ! n)) (dneg (INVTRAN.units tr)))
                                (total tr)) n tr)))"

text \<open>
  The loop \<open>for lot in replacementLots\<close>, with the running \<open>replacementUnits\<close> and
  \<open>disallowedLoss\<close>.
\<close>

fun replacement_loop ::
  "decimal \<Rightarrow> nat list \<Rightarrow> decimal \<Rightarrow> decimal \<Rightarrow> DBSession
     \<Rightarrow> error + (decimal \<times> decimal \<times> DBSession)" where
  "replacement_loop unitLoss [] ru dl s = Inr (ru, dl, s)"
| "replacement_loop unitLoss (i # rest) ru dl s =
     (if ru = 0 then Inr (ru, dl, s)
      else let lot = lots s ! i
           in if dabs (units lot) \<le> dabs ru
              then let lot' = lot\<lparr>washcost := dmul (units lot) (dneg unitLoss)\<rparr>
                   in replacement_loop unitLoss rest (dsub ru (units lot))
                        (dadd dl (washcost lot')) (set_lot s i lot')
              else if units lot = 0 then Inl (div_error (cost lot))
              else let washedUnits = ru;
                       washedCost = dmul washedUnits (unitCost lot);
                       unwashedUnits = dsub (units lot) washedUnits;
                       unwashedCost = dmul unwashedUnits (unitCost lot);
                       lot' = lot\<lparr>units := washedUnits, cost := washedCost,
                                  washcost := dmul washedUnits (dneg unitLoss)\<rparr>;
                       n = length (lots s);
                       s' = add_lot (set_lot s i lot')
                              (unwashed_Lot lot' unwashedUnits unwashedCost)
                   in (case replacement_gains_loop n (lot_gains s' i) s' of
                         Inl e \<Rightarrow> Inl e
                       | Inr s'' \<Rightarrow>
                           replacement_loop unitLoss rest (dsub ru washedUnits)
                             (dadd dl (washcost lot')) s''))"

text \<open>
  \<open>doWashSale\<close> from \<open>washedUnits = replacementUnits\<close> on: \<open>g\<close> is the id of \<open>self\<close>,
  \<open>ru\<close> the effective replacement units, \<open>dtc\<close> the \<open>dtclose\<close> of the loss lot.
\<close>

definition washsale_apply :: "DBSession \<Rightarrow> nat \<Rightarrow> decimal \<Rightarrow> datetime \<Rightarrow> error + DBSession" where
  "washsale_apply s g ru dtc =
     (let self = gains s ! g;
          li = lot_id self;
          lot = lots s ! li
      in if units lot = 0 then Inl (div_error (cost lot))
         else let washedUnits = ru;
                  unwashedUnits = dsub (units lot) washedUnits;
                  washedCost = dmul washedUnits (unitCost lot);
                  unwashedCost = dmul unwashedUnits (unitCost lot);
                  unitProceeds = ddiv (proceeds self) (units lot);
                  washedProceeds = dmul washedUnits unitProceeds;
                  unitLoss = ddiv (dsub (proceeds self) (cost lot)) (units lot);
                  disallowedLoss = dmul washedUnits unitLoss;
                  lot' = lot\<lparr>units := washedUnits, cost := washedCost\<rparr>;
                  s1 = set_gain (set_lot s li lot') g (self\<lparr>proceeds := washedProceeds\<rparr>)
              in if \<not> dabs (dsub (dsub washedProceeds washedCost) disallowedLoss)
                        < 1 / 100000000
                 then Inl (AssertionError
                        ''abs(self.value - disallowedLoss) < Decimal(0.00000001)'')
                 else let s2 = set_gain s1 g
                                 (self\<lparr>proceeds := washedProceeds,
                                       washloss := disallowedLoss\<rparr>);
                          r3 = (if unwashedUnits \<noteq> 0
                                then loss_gains_loop g washedProceeds (length (lots s2))
                                       unwashedUnits (lot_gains s2 li)
                                       (add_lot s2
                                          (unwashed_Lot lot' unwashedUnits unwashedCost))
                                else Inr s2)
                      in (case r3 of
                            Inl e \<Rightarrow> Inl e
                          | Inr s3 \<Rightarrow>
                              (case replacement_loop unitLoss
                                      (replacementLots s3 li (account lot) (security lot)
                                         (units lot) dtc)
                                      ru disallowedLoss s3 of
                                 Inl e \<Rightarrow> Inl e
                               | Inr r \<Rightarrow>
                                   if fst r \<noteq> 0
                                   then Inl (AssertionError
                                          ''replacementUnits == Decimal(0)'')
                                   else if fst (snd r) \<noteq> 0
                                   then Inl (AssertionError
                                          ''disallowedLoss == Decimal(0)'')
                                   else Inr (snd (snd r)))))"

definition doWashSale :: "DBSession \<Rightarrow> nat \<Rightarrow> error + DBSession" where
  "doWashSale s g =
     (let self = gains s ! g;
          lot = lots s ! lot_id self
      in case dtclose lot of
           None \<Rightarrow> Inr s
         | Some dtc \<Rightarrow>
             if washloss self \<noteq> 0 then Inr s
             else if 0 \<le> dsub (proceeds self) (cost lot) then Inr s
             else if closer lot \<noteq> Some (invtran_id (transaction self)) then Inr s
             else let replacementUnits =
                        dsum (map (\<lambda>i. units (lots s ! i))
                                (replacementLots s (lot_id self) (account lot)
                                   (security lot) (units lot) dtc))
                  in if replacementUnits = 0 then Inr s
                     else (case effective_units replacementUnits (units lot) of
                             None \<Rightarrow> Inl InfiniteUnits
                           | Some ru \<Rightarrow> washsale_apply s g ru dtc))"

section \<open>\<open>Gain.doWashSales\<close> and \<open>calc\<close>\<close>

text \<open>
  The query of \<open>doWashSales\<close>: the ids of the gains it hands to \<open>doWashSale\<close>, in that
  order. The arguments \<open>dtstart\<close> and \<open>dtend\<close> of the source are \<open>wstart\<close> and \<open>wend\<close>.
\<close>

definition washsale_query :: "DBSession \<Rightarrow> datetime \<Rightarrow> datetime \<Rightarrow> nat list" where
  "washsale_query s wstart wend =
     sort_key (\<lambda>g. dtopen (lots s ! lot_id (gains s ! g)))
       (filter (\<lambda>g. washloss (gains s ! g) = 0
                   \<and> lot_id (gains s ! g) < length (lots s)
                   \<and> dtclose (lots s ! lot_id (gains s ! g)) \<noteq> None
                   \<and> wstart < dtopen (lots s ! lot_id (gains s ! g))
                   \<and> dtopen (lots s ! lot_id (gains s ! g)) \<le> wend)
          [0..<length (gains s)])"

fun doWashSales_loop :: "nat list \<Rightarrow> DBSession \<Rightarrow> error + DBSession" where
  "doWashSales_loop [] s = Inr s"
| "doWashSales_loop (g # rest) s =
     (case doWashSale s g of
        Inl e \<Rightarrow> Inl e
      | Inr s' \<Rightarrow> doWashSales_loop rest s')"

definition doWashSales ::
  "DBSession \<Rightarrow> datetime option \<Rightarrow> datetime option \<Rightarrow> error + DBSession" where
  "doWashSales s wstart wend =
     doWashSales_loop
       (washsale_query s (or_default wstart datetime_min) (or_default wend datetime_max)) s"

definition calc ::
  "externals \<Rightarrow> DBSession \<Rightarrow> datetime option \<Rightarrow> datetime option \<Rightarrow> error + DBSession" where
  "calc x s wstart wend =
     (case doInvtrans x s wstart wend of
        Inl e \<Rightarrow> Inl e
      | Inr s' \<Rightarrow> doWashSales s' wstart wend)"

section \<open>\<open>Lot.dumpCsv\<close> and \<open>Lot.loadCsv\<close>\<close>

text \<open>
  A row of the lots file, column by column as \<open>csvFields\<close> lists them. \<open>csv.DictWriter\<close>
  writes \<open>str(v)\<close> of every value and \<open>csv.DictReader\<close> returns that text; a cell is kept
  here as the value written, where the text determines it: \<open>Decimal(str(d)) = d\<close> for every
  \<open>Decimal\<close>, and \<open>str(n)\<close> of an \<open>int\<close> reads back as that integer. A column the writer
  has no value for is the empty cell, \<open>None\<close>.
\<close>

record csvrow =
  row_brokerid :: string
  row_acctid :: string
  row_ticker :: string
  row_secname :: string
  row_uniqueidtype :: string
  row_uniqueid :: string
  row_dtopen :: "datetime option"
  row_units :: decimal
  row_cost :: decimal
  row_washcost :: "int option"

text \<open>The group of lots of one account and security, in the consolidated dump.\<close>

definition consolidated_row :: "DBSession \<Rightarrow> nat list \<Rightarrow> INVACCTFROM \<times> SECINFO \<Rightarrow> csvrow" where
  "consolidated_row s ids k =
     (let grp = filter (\<lambda>i. (account (lots s ! i), security (lots s ! i)) = k) ids
      in \<lparr>row_brokerid = brokerid (fst k), row_acctid = acctid (fst k),
          row_ticker = ticker (snd k), row_secname = secname (snd k),
          row_uniqueidtype = uniqueidtype (snd k), row_uniqueid = uniqueid (snd k),
          row_dtopen = None,
          row_units = dsum (map (\<lambda>i. units (lots s ! i)) grp),
          row_cost = dsum (map (\<lambda>i. cost (lots s ! i)) grp),
          row_washcost = None\<rparr>)"

definition lot_row :: "Lot \<Rightarrow> csvrow" where
  "lot_row lot =
     \<lparr>row_brokerid = brokerid (account lot), row_acctid = acctid (account lot),
      row_ticker = ticker (security lot), row_secname = secname (security lot),
      row_uniqueidtype = uniqueidtype (security lot), row_uniqueid = uniqueid (security lot),
      row_dtopen = Some (dtopen lot),
      row_units = units lot,
      row_cost = cost lot,
      row_washcost = Some (int_of_decimal (washcost lot))\<rparr>"

definition dumpCsv :: "DBSession \<Rightarrow> datetime option \<Rightarrow> bool \<Rightarrow> csvrow list" where
  "dumpCsv s dtasof consolidate =
     (let ids = asOf s (or_default dtasof datetime_max) None None
      in if consolidate
         then map (consolidated_row s ids)
                (remdups (map (\<lambda>i. (account (lots s ! i), security (lots s ! i))) ids))
         else map (\<lambda>i. lot_row (lots s ! i)) ids)"

text \<open>
  The three \<open>strptime\<close> attempts of \<open>loadCsv\<close> on the text of the \<open>dtopen\<close> cell.
  \<open>str(dt)\<close> is \<open>YYYY-MM-DD HH:MM:SS\<close>, which the first format reads back, when
  \<open>dt.microsecond\<close> is 0; otherwise it ends in \<open>.ffffff\<close>, which none of the formats
  accepts, as none accepts the empty cell.
\<close>

definition parse_dtopen :: "datetime option \<Rightarrow> error + datetime" where
  "parse_dtopen c =
     (case c of
        None \<Rightarrow> Inl ValueError
      | Some dt \<Rightarrow> if microsecond dt = 0 then Inr dt else Inl ValueError)"

definition lookup_account :: "DBSession \<Rightarrow> string \<Rightarrow> string \<Rightarrow> INVACCTFROM option" where
  "lookup_account s b a = find (\<lambda>x. brokerid x = b \<and> acctid x = a) (invacctfroms s)"

definition lookup_secinfo :: "DBSession \<Rightarrow> string \<Rightarrow> string \<Rightarrow> SECINFO option" where
  "lookup_secinfo s u t = find (\<lambda>x. uniqueid x = u \<and> uniqueidtype x = t) (secinfos s)"

text \<open>
  The body of the loop of \<open>loadCsv\<close>. A new account is added to the session at once; a new
  security enters it with the lot that refers to it.
\<close>

definition load_row :: "DBSession \<Rightarrow> csvrow \<Rightarrow> error + DBSession" where
  "load_row s0 r =
     (let found = lookup_account s0 (row_brokerid r) (row_acctid r);
          acct = or_default found \<lparr>brokerid = row_brokerid r, acctid = row_acctid r\<rparr>;
          s1 = (if found = None then s0\<lparr>invacctfroms := invacctfroms s0 @ [acct]\<rparr> else s0);
          sfound = lookup_secinfo s1 (row_uniqueid r) (row_uniqueidtype r);
          sec = or_default sfound
                  \<lparr>uniqueidtype = row_uniqueidtype r, uniqueid = row_uniqueid r,
                   ticker = row_ticker r, secname = row_secname r\<rparr>;
          s2 = (if sfound = None then s1\<lparr>secinfos := secinfos s1 @ [sec]\<rparr> else s1)
      in case parse_dtopen (row_dtopen r) of
           Inl e \<Rightarrow> Inl e
         | Inr dt \<Rightarrow>
             (case row_washcost r of
                None \<Rightarrow> Inl InvalidOperation
              | Some w \<Rightarrow>
                  Inr (add_lot s2
                         ((new_Lot acct sec (row_units r) (row_cost r) dt None dt None)
                            \<lparr>washcost := of_int w\<rparr>))))"

text \<open>\<open>loadCsv\<close> returns the lots it made; here, their ids.\<close>

fun loadCsv_loop :: "csvrow list \<Rightarrow> nat list \<Rightarrow> DBSession \<Rightarrow> error + (nat list \<times> DBSession)" where
  "loadCsv_loop [] acc s = Inr (acc, s)"
| "loadCsv_loop (r # rest) acc s =
     (case load_row s r of
        Inl e \<Rightarrow> Inl e
      | Inr s' \<Rightarrow> loadCsv_loop rest (acc @ [length (lots s)]) s')"

definition loadCsv :: "DBSession \<Rightarrow> csvrow list \<Rightarrow> error + (nat list \<times> DBSession)" where
  "loadCsv s rows = loadCsv_loop rows [] s"

section \<open>Scenarios\<close>

text \<open>The account and the security of the test cases, and a trade in them.\<close>

definition acme_account :: INVACCTFROM where
  "acme_account = \<lparr>brokerid = ''2222'', acctid = ''271828''\<rparr>"

definition acme :: SECINFO where
  "acme = \<lparr>uniqueidtype = ''CUSIP'', uniqueid = ''123456789'', ticker = ''ACME'',
            secname = ''Acme Development, Inc.''\<rparr>"

definition acme_trade :: "nat \<Rightarrow> datetime \<Rightarrow> decimal \<Rightarrow> decimal \<Rightarrow> INVTRAN" where
  "acme_trade n dt u tot =
     \<lparr>invtran_id = n, trantype = INVBUYSELL, fitid = [], dttrade = dt,
      acctfrom = acme_account, secinfo = acme, units = u, total = tot, oldunits = 0,
      newunits = 0, numerator = 0, denominator = 0, memo = []\<rparr>"

lemmas acme_eval = acme_account_def acme_def acme_trade_def

text \<open>
  S1, the partial close: 300 units bought for 3009.99 on 2005-10-03, 200 of them sold for
  2390.01 on 2005-12-01, with the session after each trade.
\<close>

definition S1_buy :: INVTRAN where
  "S1_buy = acme_trade 1 (mkdate 2005 10 3) 300 (- (300999 / 100))"

definition S1_sell :: INVTRAN where
  "S1_sell = acme_trade 2 (mkdate 2005 12 1) (- 200) (239001 / 100)"

definition S1_bought :: DBSession where
  "S1_bought =
     \<lparr>invacctfroms = [], secinfos = [], invtrans = [S1_buy],
      lots = [new_Lot acme_account acme 300 (300999 / 100) (mkdate 2005 10 3) (Some 1)
                (mkdate 2005 10 3) (Some 1)],
      gains = [], ofxlogs = [1]\<rparr>"

definition S1_closed_lot :: Lot where
  "S1_closed_lot =
     \<lparr>dtopen = mkdate 2005 10 3, dtclose = Some (mkdate 2005 12 1),
      dtstart = mkdate 2005 10 3, dtend = Some (mkdate 2005 12 1),
      units = 200, cost = 200666 / 100, washcost = 0,
      account = acme_account, security = acme, opener = Some 1, closer = Some 2,
      starter = Some 1, ender = Some 2, predecessor = None\<rparr>"

definition S1_open_lot :: Lot where
  "S1_open_lot =
     new_Lot acme_account acme 100 (100333 / 100) (mkdate 2005 10 3) (Some 1)
       (mkdate 2005 10 3) (Some 1)"

definition S1_gain :: Gain where
  "S1_gain = \<lparr>proceeds = 239001 / 100, washloss = 0, lot_id = 0, transaction = S1_sell\<rparr>"

definition S1_sold :: DBSession where
  "S1_sold =
     \<lparr>invacctfroms = [], secinfos = [], invtrans = [S1_buy, S1_sell],
      lots = [S1_closed_lot, S1_open_lot], gains = [S1_gain], ofxlogs = [1, 2]\<rparr>"

lemmas S1_eval =
  S1_buy_def S1_sell_def S1_bought_def S1_closed_lot_def S1_open_lot_def S1_gain_def
  S1_sold_def

text \<open>
  A wash sale in whole units: 7 units bought for 8 on 2005-10-03 and sold for 7 on
  2005-12-01, then 3 and 4 units bought on 2005-12-05 and 2005-12-10. \<open>W_start\<close> holds
  the four trades, the next sessions are those after each trade.
\<close>

definition W_buy7 :: INVTRAN where
  "W_buy7 = acme_trade 1 (mkdate 2005 10 3) 7 (- 8)"

definition W_sell7 :: INVTRAN where
  "W_sell7 = acme_trade 2 (mkdate 2005 12 1) (- 7) 7"

definition W_buy3 :: INVTRAN where
  "W_buy3 = acme_trade 3 (mkdate 2005 12 5) 3 (- 3)"

definition W_buy4 :: INVTRAN where
  "W_buy4 = acme_trade 4 (mkdate 2005 12 10) 4 (- 4)"

definition W_start :: DBSession where
  "W_start = empty_session\<lparr>invtrans := [W_buy7, W_sell7, W_buy3, W_buy4]\<rparr>"

definition W_loss_lot :: Lot where
  "W_loss_lot =
     \<lparr>dtopen = mkdate 2005 10 3, dtclose = Some (mkdate 2005 12 1),
      dtstart = mkdate 2005 10 3, dtend = Some (mkdate 2005 12 1),
      units = 7, cost = 8, washcost = 0,
      account = acme_account, security = acme, opener = Some 1, closer = Some 2,
      starter = Some 1, ender = Some 2, predecessor = None\<rparr>"

definition W_bought7 :: DBSession where
  "W_bought7 =
     W_start
       \<lparr>lots := [new_Lot acme_account acme 7 8 (mkdate 2005 10 3) (Some 1)
                   (mkdate 2005 10 3) (Some 1)],
        ofxlogs := [1]\<rparr>"

definition W_sold7 :: DBSession where
  "W_sold7 = W_start\<lparr>lots := [W_loss_lot], gains := [new_Gain 7 0 W_sell7], ofxlogs := [1, 2]\<rparr>"

definition W_bought3 :: DBSession where
  "W_bought3 =
     W_sold7
       \<lparr>lots := [W_loss_lot,
                 new_Lot acme_account acme 3 3 (mkdate 2005 12 5) (Some 3)
                   (mkdate 2005 12 5) (Some 3)],
        ofxlogs := [1, 2, 3]\<rparr>"

definition W_ledger :: DBSession where
  "W_ledger =
     W_sold7
       \<lparr>lots := [W_loss_lot,
                 new_Lot acme_account acme 3 3 (mkdate 2005 12 5) (Some 3)
                   (mkdate 2005 12 5) (Some 3),
                 new_Lot acme_account acme 4 4 (mkdate 2005 12 10) (Some 4)
                   (mkdate 2005 12 10) (Some 4)],
        ofxlogs := [1, 2, 3, 4]\<rparr>"

lemmas W_eval =
  W_buy7_def W_sell7_def W_buy3_def W_buy4_def W_start_def W_loss_lot_def W_bought7_def
  W_sold7_def W_bought3_def W_ledger_def

text \<open>
  A ledger with four lots for a return of capital: the two lots of S1 (the first closed on
  2005-12-01), a short lot of the same security and a long lot of another one; and a
  return of capital of 2000 on the security of S1 on 2005-12-02.
\<close>

definition other_security :: SECINFO where
  "other_security = \<lparr>uniqueidtype = ''CUSIP'', uniqueid = ''084670108'', ticker = ''BRK-A'',
                      secname = ''Berkshire Hathaway''\<rparr>"

definition R_ledger :: DBSession where
  "R_ledger =
     S1_sold
       \<lparr>lots := [S1_closed_lot, S1_open_lot,
                 new_Lot acme_account acme (- 50) (- 500) (mkdate 2005 11 1) None
                   (mkdate 2005 11 1) None,
                 new_Lot acme_account other_security 10 1000 (mkdate 2005 11 2) None
                   (mkdate 2005 11 2) None]\<rparr>"

definition R2000 :: INVTRAN where
  "R2000 =
     \<lparr>invtran_id = 7, trantype = RETOFCAP, fitid = [], dttrade = mkdate 2005 12 2,
      acctfrom = acme_account, secinfo = acme, units = 0, total = 2000, oldunits = 0,
      newunits = 0, numerator = 0, denominator = 0, memo = []\<rparr>"

text \<open>
  A 2-for-1 split of the security of S1 on 2005-12-02, 100 new units for the 50 old ones
  that the long and the short lot of \<open>R_ledger\<close> hold between them; and a split record
  whose four numbers are all 0.
\<close>

definition SPLIT2 :: INVTRAN where
  "SPLIT2 =
     \<lparr>invtran_id = 6, trantype = SPLIT, fitid = [], dttrade = mkdate 2005 12 2,
      acctfrom = acme_account, secinfo = acme, units = 0, total = 0, oldunits = 50,
      newunits = 100, numerator = 2, denominator = 1, memo = []\<rparr>"



text \<open>
  A transfer at the broker \<open>4705\<close>: a lot of 100 units of the security of S1 bought on
  2005-10-03, and on 2005-12-02 a pair of \<open>TRANSFER\<close> records that takes the 100 units out
  and brings 50 units of the other security in. \<open>T_externals\<close> holds the answers of
  \<open>transferMemoRE\<close> on the two memos of the pair, and \<open>LIKE\<close> for a pattern whose only
  wildcard is its final \<open>%\<close>.
\<close>

definition ibkr_account :: INVACCTFROM where
  "ibkr_account = \<lparr>brokerid = ''4705'', acctid = ''U123456''\<rparr>"

definition T_buy :: INVTRAN where
  "T_buy = (acme_trade 1 (mkdate 2005 10 3) 100 (- 1000))\<lparr>acctfrom := ibkr_account\<rparr>"

definition T_out :: INVTRAN where
  "T_out =
     \<lparr>invtran_id = 2, trantype = TRANSFER, fitid = [], dttrade = mkdate 2005 12 2,
      acctfrom = ibkr_account, secinfo = acme, units = - 100, total = 0, oldunits = 0,
      newunits = 0, numerator = 0, denominator = 0,
      memo = ''ACME MERGER (ACME, ACME DEVELOPMENT, 123456789)''\<rparr>"

definition T_in :: INVTRAN where
  "T_in =
     \<lparr>invtran_id = 3, trantype = TRANSFER, fitid = [], dttrade = mkdate 2005 12 2,
      acctfrom = ibkr_account, secinfo = other_security, units = 50, total = 0, oldunits = 0,
      newunits = 0, numerator = 0, denominator = 0,
      memo = ''ACME MERGER (BRK-A, BERKSHIRE HATHAWAY, 084670108)''\<rparr>"

definition T_lot :: Lot where
  "T_lot = new_Lot ibkr_account acme 100 1000 (mkdate 2005 10 3) (Some 1) (mkdate 2005 10 3)
             (Some 1)"

definition T_ledger :: DBSession where
  "T_ledger =
     \<lparr>invacctfroms = [], secinfos = [], invtrans = [T_buy, T_out, T_in],
      lots = [T_lot], gains = [], ofxlogs = [1]\<rparr>"

definition T_externals :: externals where
  "T_externals =
     \<lparr>transferMemoRE =
        (\<lambda>m. if m = ''ACME MERGER (ACME, ACME DEVELOPMENT, 123456789)''
             then Some (''ACME MERGER'', ''123456789'')
             else if m = ''ACME MERGER (BRK-A, BERKSHIRE HATHAWAY, 084670108)''
             then Some (''ACME MERGER'', ''084670108'')
             else None),
      retofcapMemoRE = (\<lambda>m. None),
      sql_like = (\<lambda>v p. take (length p - 1) v = butlast p),
      lower = (\<lambda>v. v)\<rparr>"

definition T_done :: DBSession where
  "T_done =
     T_ledger
       \<lparr>lots := [T_lot\<lparr>ender := Some 2, dtend := Some (mkdate 2005 12 2)\<rparr>,
                 \<lparr>dtopen = mkdate 2005 10 3, dtclose = None, dtstart = mkdate 2005 12 2,
                  dtend = None, units = 50, cost = 1000, washcost = 0,
                  account = ibkr_account, security = other_security, opener = Some 1,
                  closer = None, starter = Some 3, ender = None, predecessor = Some 0\<rparr>],
        ofxlogs := [1, 2, 3]\<rparr>"

lemmas T_eval =
  ibkr_account_def T_buy_def T_out_def T_in_def T_lot_def T_ledger_def T_externals_def
  T_done_def other_security_def

definition T_start :: DBSession where
  "T_start = empty_session\<lparr>invtrans := [T_buy, T_out, T_in]\<rparr>"

section \<open>Evaluation and basic facts\<close>

text \<open>
  Closed terms are evaluated by the simplifier from the definitions; the two lemmas give
  it the floor and the ceiling of a quotient of numerals.
\<close>

lemma floor_numeral_div: "\<lfloor>(numeral a :: rat) / numeral b\<rfloor> = numeral a div numeral b"
  using floor_divide_of_int_eq [of "numeral a" "numeral b", where ?'a = rat] by simp

lemma ceiling_numeral_div:
  "\<lceil>(numeral a :: rat) / numeral b\<rceil> = - ((- numeral a) div numeral b)"
  using ceiling_divide_eq_div [of "numeral a" "numeral b"] by simp

lemmas decimal_eval =
  ddiv_def dmul_def dadd_def dsub_def dneg_def dabs_def dsum_def ctx_round_def adjusted_def
  round_half_even_def ndigits.simps pow10_def prec_def Let_def floor_numeral_div
  ceiling_numeral_div

lemmas date_eval =
  mkdate_def ymd2ord_def days_before_year_def days_before_month_def is_leap_def day_us_def
  timedelta_days_def days_def datetime_min_def datetime_max_def

lemmas session_eval =
  get_or_create_def add_invtran_def asOf_def longsAsOf_def current_at_def opt_matches_def
  add_lot_def add_gain_def set_lot_def set_gain_def new_Lot_def new_Gain_def unitCost_def
  empty_session_def or_default_def

lemma dmul_zero_right [simp]: "dmul x 0 = 0"
  by (simp add: dmul_def ctx_round_def)

lemma get_or_create_new:
  "invtran_id t \<notin> set (ofxlogs s) \<Longrightarrow>
     get_or_create s t = (s\<lparr>ofxlogs := ofxlogs s @ [invtran_id t]\<rparr>, True)"
  by (simp add: get_or_create_def)

lemma get_or_create_old:
  "invtran_id t \<in> set (ofxlogs s) \<Longrightarrow> get_or_create s t = (s, False)"
  by (simp add: get_or_create_def)

lemma ofxlogs_add_invtran [simp]: "ofxlogs (add_invtran s t) = ofxlogs s"
  by (simp add: add_invtran_def)

lemma lots_add_invtran [simp]: "lots (add_invtran s t) = lots s"
  by (simp add: add_invtran_def)

lemma gains_add_invtran [simp]: "gains (add_invtran s t) = gains s"
  by (simp add: add_invtran_def)

lemmas trade_eval = trade_def trade_open_def trade_close_def

lemmas float_eval =
  effective_units_def copysign_def float_of_def ilog2_def nbits.simps pow2_def

lemmas washsale_eval =
  doWashSale_def washsale_apply_def replacementLots_def lot_gains_def unwashed_Lot_def
  washsale_query_def doWashSales_def

lemmas driver_eval = doInvtrans_def invtrans_between_def doInvtran_def

section \<open>Names for what the loops compute\<close>

text \<open>
  The local variables \<open>lots\<close>, \<open>totalUnits\<close> and \<open>adjCost\<close> of \<open>returnOfCapital\<close>, as
  functions of the session before the call, and the gains its loop adds: one for each lot
  whose adjusted cost is negative, on the successor lot, whose id is \<open>n\<close> for the first lot
  of the list.
\<close>

definition retofcap_lots :: "DBSession \<Rightarrow> INVTRAN \<Rightarrow> nat list" where
  "retofcap_lots s invtran = longsAsOf s (dttrade invtran) None (Some (secinfo invtran))"

definition retofcap_totalUnits :: "DBSession \<Rightarrow> INVTRAN \<Rightarrow> decimal" where
  "retofcap_totalUnits s invtran = dsum (map (\<lambda>i. units (lots s ! i)) (retofcap_lots s invtran))"

definition adjCost :: "decimal \<Rightarrow> Lot \<Rightarrow> decimal" where
  "adjCost unitRetofcap lot = dsub (cost lot) (dmul (units lot) unitRetofcap)"

text \<open>The lot the loop body ends, and the successor it leaves in the session.\<close>

definition retofcap_ended :: "INVTRAN \<Rightarrow> Lot \<Rightarrow> Lot" where
  "retofcap_ended invtran lot =
     lot\<lparr>ender := Some (invtran_id invtran), dtend := Some (dttrade invtran)\<rparr>"

definition retofcap_successor :: "INVTRAN \<Rightarrow> decimal \<Rightarrow> nat \<Rightarrow> Lot \<Rightarrow> Lot" where
  "retofcap_successor invtran u i lot =
     \<lparr>dtopen = dtopen lot, dtclose = None, dtstart = dttrade invtran, dtend = None,
      units = units lot, cost = (if adjCost u lot < 0 then 0 else adjCost u lot),
      washcost = washcost lot, account = account lot, security = security lot,
      opener = opener lot, closer = None, starter = Some (invtran_id invtran),
      ender = None, predecessor = Some i\<rparr>"

fun retofcap_gains :: "INVTRAN \<Rightarrow> decimal \<Rightarrow> nat \<Rightarrow> Lot list \<Rightarrow> nat list \<Rightarrow> Gain list" where
  "retofcap_gains invtran u n ls [] = []"
| "retofcap_gains invtran u n ls (i # ids) =
     (if adjCost u (ls ! i) < 0 then [new_Gain (dneg (adjCost u (ls ! i))) n invtran] else [])
     @ retofcap_gains invtran u (Suc n) ls ids"

text \<open>
  For \<open>split\<close>: the lots its loop goes through, the lot it ends and the successor it
  appends, and the \<open>newUnits\<close> it has added up at the end.
\<close>

definition split_lots :: "DBSession \<Rightarrow> INVTRAN \<Rightarrow> nat list" where
  "split_lots s invtran = asOf s (dttrade invtran) None (Some (secinfo invtran))"

definition split_successor :: "INVTRAN \<Rightarrow> decimal \<Rightarrow> nat \<Rightarrow> Lot \<Rightarrow> Lot" where
  "split_successor invtran ratio i lot =
     \<lparr>dtopen = dtopen lot, dtclose = None, dtstart = dttrade invtran, dtend = None,
      units = dmul (units lot) ratio, cost = cost lot,
      washcost = washcost lot, account = account lot, security = security lot,
      opener = opener lot, closer = None, starter = Some (invtran_id invtran),
      ender = None, predecessor = Some i\<rparr>"

definition split_newUnits :: "DBSession \<Rightarrow> INVTRAN \<Rightarrow> decimal" where
  "split_newUnits s invtran =
     dsum (map (\<lambda>i. dmul (units (lots s ! i)) (ddiv (newunits invtran) (oldunits invtran)))
             (split_lots s invtran))"

text \<open>
  The holding period of successors, as a relation between the lots before and after an
  operation: the lots of before keep their \<open>dtopen\<close>, \<open>opener\<close> and \<open>predecessor\<close>, and
  every lot added has one of them as predecessor and carries its \<open>dtopen\<close> and \<open>opener\<close>.
\<close>

definition successors_keep_holding_period :: "Lot list \<Rightarrow> Lot list \<Rightarrow> bool" where
  "successors_keep_holding_period ls ls' \<longleftrightarrow>
     length ls \<le> length ls'
     \<and> (\<forall>j<length ls. dtopen (ls' ! j) = dtopen (ls ! j) \<and> opener (ls' ! j) = opener (ls ! j)
                       \<and> predecessor (ls' ! j) = predecessor (ls ! j))
     \<and> (\<forall>j<length ls'. length ls \<le> j \<longrightarrow>
           (\<exists>p<length ls. predecessor (ls' ! j) = Some p
                          \<and> dtopen (ls' ! j) = dtopen (ls ! p)
                          \<and> opener (ls' ! j) = opener (ls ! p)))"

text \<open>
  The same along chains: every lot that has a predecessor has an earlier lot as
  predecessor and shares its \<open>dtopen\<close> and \<open>opener\<close> with it.
\<close>

definition holding_period_chain :: "Lot list \<Rightarrow> bool" where
  "holding_period_chain ls \<longleftrightarrow>
     (\<forall>j<length ls. case predecessor (ls ! j) of
                       None \<Rightarrow> True
                     | Some p \<Rightarrow> p < j \<and> dtopen (ls ! p) = dtopen (ls ! j)
                                  \<and> opener (ls ! p) = opener (ls ! j))"

text \<open>The lot the loop of \<open>doTransfer\<close> appends.\<close>

definition transfer_successor :: "INVTRAN \<Rightarrow> INVTRAN \<Rightarrow> SECINFO \<Rightarrow> decimal \<Rightarrow> nat \<Rightarrow> Lot \<Rightarrow> Lot" where
  "transfer_successor invtran transferIn newSecurity ratio i lot =
     \<lparr>dtopen = dtopen lot, dtclose = None, dtstart = dttrade invtran, dtend = None,
      units = dmul (units lot) ratio, cost = cost lot,
      washcost = washcost lot, account = account lot, security = newSecurity,
      opener = opener lot, closer = None, starter = Some (invtran_id transferIn),
      ender = None, predecessor = Some i\<rparr>"

definition transfer_ended :: "INVTRAN \<Rightarrow> INVTRAN \<Rightarrow> Lot \<Rightarrow> Lot" where
  "transfer_ended invtran transferOut lot =
     lot\<lparr>ender := Some (invtran_id transferOut), dtend := Some (dttrade invtran)\<rparr>"

text \<open>
  What every operation of the ledger does to the columns \<open>dtopen\<close>, \<open>opener\<close> and
  \<open>predecessor\<close>: the lots of before keep them, and a lot that is added either has no
  predecessor or shares \<open>dtopen\<close> and \<open>opener\<close> with an earlier lot, its predecessor.
\<close>

definition holding_ext :: "Lot list \<Rightarrow> Lot list \<Rightarrow> bool" where
  "holding_ext ls ls' \<longleftrightarrow>
     length ls \<le> length ls'
     \<and> (\<forall>j<length ls. dtopen (ls' ! j) = dtopen (ls ! j) \<and> opener (ls' ! j) = opener (ls ! j)
                       \<and> predecessor (ls' ! j) = predecessor (ls ! j))
     \<and> (\<forall>j<length ls'. length ls \<le> j \<longrightarrow>
           (case predecessor (ls' ! j) of
              None \<Rightarrow> True
            | Some p \<Rightarrow> p < j \<and> dtopen (ls' ! p) = dtopen (ls' ! j)
                         \<and> opener (ls' ! p) = opener (ls' ! j)))"


text \<open>
  The predecessor chain of a lot: the lot, its predecessor, the predecessor of that one,
  and so on. Ids are given in order of creation, so a predecessor has a smaller id; the
  chain stops at a lot without predecessor.
\<close>

function lot_chain :: "Lot list \<Rightarrow> nat \<Rightarrow> nat list" where
  "lot_chain ls j =
     (case predecessor (ls ! j) of
        None \<Rightarrow> [j]
      | Some p \<Rightarrow> if p < j then j # lot_chain ls p else [j])"
  by pat_completeness auto

termination lot_chain
  by (relation "measure snd") auto

declare lot_chain.simps [simp del]


text \<open>
  \<open>(uniqueid, uniqueidtype)\<close> is the primary key of \<open>SECINFO\<close>: in a database no two
  securities share it.
\<close>

definition same_pk :: "SECINFO \<Rightarrow> SECINFO \<Rightarrow> bool" where
  "same_pk x y \<longleftrightarrow> uniqueid x = uniqueid y \<and> uniqueidtype x = uniqueidtype y"

definition pk_unique :: "SECINFO list \<Rightarrow> bool" where
  "pk_unique xs \<longleftrightarrow> (\<forall>x\<in>set xs. \<forall>y\<in>set xs. same_pk x y \<longrightarrow> x = y)"

text \<open>The lot \<open>loadCsv\<close> makes of the row \<open>dumpCsv\<close> has written for a lot.\<close>

definition loaded_lot :: "Lot \<Rightarrow> Lot" where
  "loaded_lot lot =
     \<lparr>dtopen = dtopen lot, dtclose = None, dtstart = dtopen lot, dtend = None,
      units = units lot, cost = cost lot, washcost = of_int (int_of_decimal (washcost lot)),
      account = account lot, security = security lot, opener = None, closer = None,
      starter = None, ender = None, predecessor = None\<rparr>"
section \<open>Loops that end lots and append their successors\<close>

text \<open>
  The loops of \<open>returnOfCapital\<close>, \<open>split\<close> and \<open>doTransfer\<close> have one shape: each step
  changes the lot \<open>i\<close> of the list and appends one lot made from it. Over distinct ids the
  result is read off position by position.
\<close>

lemma fold_supersede:
  fixes L :: "'st \<Rightarrow> 'a list"
  assumes step: "\<And>i s. i < length (L s) \<Longrightarrow>
                   L (step i s) = (L s)[i := e (L s ! i)] @ [g i (L s ! i)]"
  shows "distinct ids \<Longrightarrow> (\<forall>i\<in>set ids. i < length (L s)) \<Longrightarrow>
     length (L (fold step ids s)) = length (L s) + length ids
   \<and> (\<forall>j<length (L s). L (fold step ids s) ! j =
                            (if j \<in> set ids then e (L s ! j) else L s ! j))
   \<and> (\<forall>k<length ids. L (fold step ids s) ! (length (L s) + k) =
                          g (ids ! k) (L s ! (ids ! k)))"
proof (induction ids arbitrary: s)
  case Nil
  then show ?case by simp
next
  case (Cons i ids)
  let ?s1 = "step i s"
  have i: "i < length (L s)" and ni: "i \<notin> set ids" and d: "distinct ids"
    and b: "\<forall>j\<in>set ids. j < length (L s)"
    using Cons.prems by auto
  have L1: "L ?s1 = (L s)[i := e (L s ! i)] @ [g i (L s ! i)]"
    using step [OF i] .
  have len1: "length (L ?s1) = Suc (length (L s))"
    by (simp add: L1)
  have b1: "\<forall>j\<in>set ids. j < length (L ?s1)"
    using b len1 by auto
  note IH = Cons.IH [OF d b1]
  have same: "L ?s1 ! j = L s ! j" if "j \<in> set ids" for j
  proof -
    have "j < length (L s)" and "j \<noteq> i"
      using that b ni by auto
    then show ?thesis
      by (simp add: L1 nth_append)
  qed
  have A: "length (L (fold step (i # ids) s)) = length (L s) + length (i # ids)"
    using IH len1 by simp
  have B: "\<forall>j<length (L s). L (fold step (i # ids) s) ! j =
             (if j \<in> set (i # ids) then e (L s ! j) else L s ! j)"
  proof (intro allI impI)
    fix j assume j: "j < length (L s)"
    then have "j < length (L ?s1)" using len1 by simp
    then have "L (fold step ids ?s1) ! j = (if j \<in> set ids then e (L ?s1 ! j) else L ?s1 ! j)"
      using IH by blast
    then show "L (fold step (i # ids) s) ! j =
             (if j \<in> set (i # ids) then e (L s ! j) else L s ! j)"
      using j i ni same by (auto simp: L1 nth_append nth_list_update)
  qed
  have C: "\<forall>k<length (i # ids). L (fold step (i # ids) s) ! (length (L s) + k) =
             g ((i # ids) ! k) (L s ! ((i # ids) ! k))"
  proof (intro allI impI)
    fix k assume k: "k < length (i # ids)"
    show "L (fold step (i # ids) s) ! (length (L s) + k) =
             g ((i # ids) ! k) (L s ! ((i # ids) ! k))"
    proof (cases k)
      case 0
      have "length (L s) < length (L ?s1)" using len1 by simp
      then have "L (fold step ids ?s1) ! length (L s) =
          (if length (L s) \<in> set ids then e (L ?s1 ! length (L s)) else L ?s1 ! length (L s))"
        using IH by blast
      moreover have "length (L s) \<notin> set ids" using b by auto
      ultimately show ?thesis using 0 by (simp add: L1 nth_append)
    next
      case (Suc k')
      then have k': "k' < length ids" using k by simp
      then have "L (fold step ids ?s1) ! (length (L ?s1) + k') = g (ids ! k') (L ?s1 ! (ids ! k'))"
        using IH by blast
      moreover have "L ?s1 ! (ids ! k') = L s ! (ids ! k')"
        using same k' by simp
      ultimately show ?thesis using Suc len1 by simp
    qed
  qed
  show ?case using A B C by blast
qed

lemma asOf_distinct: "distinct (asOf s d a b)"
  by (simp add: asOf_def)

lemma asOf_bound: "i \<in> set (asOf s d a b) \<Longrightarrow> i < length (lots s)"
  by (auto simp: asOf_def)

lemma asOf_lots_cong: "lots s = lots s' \<Longrightarrow> asOf s d a b = asOf s' d a b"
  by (simp add: asOf_def)

lemma longsAsOf_distinct: "distinct (longsAsOf s d a b)"
  by (simp add: longsAsOf_def asOf_distinct)

lemma longsAsOf_bound: "i \<in> set (longsAsOf s d a b) \<Longrightarrow> i < length (lots s)"
  by (auto simp: longsAsOf_def asOf_bound)

lemma longsAsOf_lots_cong: "lots s = lots s' \<Longrightarrow> longsAsOf s d a b = longsAsOf s' d a b"
  by (simp add: longsAsOf_def asOf_def)

lemma asOf_iff:
  "i \<in> set (asOf s d a b) \<longleftrightarrow>
     i < length (lots s)
     \<and> dtstart (lots s ! i) \<le> d
     \<and> (case dtend (lots s ! i) of None \<Rightarrow> True | Some e \<Rightarrow> d < e)
     \<and> (case a of None \<Rightarrow> True | Some x \<Rightarrow> account (lots s ! i) = x)
     \<and> (case b of None \<Rightarrow> True | Some y \<Rightarrow> security (lots s ! i) = y)"
  by (auto simp: asOf_def current_at_def opt_matches_def)

text \<open>The order \<open>(key, id)\<close> of a stable sort of ids that come in increasing order.\<close>

lemma insort_key_by_key_then_id:
  assumes "sorted_wrt (\<lambda>i j. f i < f j \<or> (f i = f j \<and> i < j)) ys"
    and "\<forall>y\<in>set ys. x < y"
  shows "sorted_wrt (\<lambda>i j. f i < f j \<or> (f i = f j \<and> i < j)) (insort_key f x ys)"
  using assms
proof (induction ys)
  case Nil
  then show ?case by simp
next
  case (Cons y ys)
  show ?case
  proof (cases "f x \<le> f y")
    case True
    have "\<forall>z\<in>set (y # ys). f x < f z \<or> (f x = f z \<and> x < z)"
    proof
      fix z assume z: "z \<in> set (y # ys)"
      have xz: "x < z" using Cons.prems(2) z by blast
      have "f y \<le> f z"
        using Cons.prems(1) z by (auto simp: less_imp_le)
      then have "f x \<le> f z" using True by simp
      then show "f x < f z \<or> (f x = f z \<and> x < z)" using xz by auto
    qed
    then show ?thesis
      using True Cons.prems(1) by simp
  next
    case False
    have tail: "sorted_wrt (\<lambda>i j. f i < f j \<or> (f i = f j \<and> i < j)) (insort_key f x ys)"
      using Cons.IH Cons.prems by simp
    have "\<forall>z\<in>set (insort_key f x ys). f y < f z \<or> (f y = f z \<and> y < z)"
      using Cons.prems(1) False by (auto simp: set_insort_key)
    then show ?thesis
      using False tail by simp
  qed
qed

lemma sort_key_by_key_then_id:
  fixes f :: "nat \<Rightarrow> 'k::linorder"
  assumes "sorted_wrt (<) xs"
  shows "sorted_wrt (\<lambda>i j. f i < f j \<or> (f i = f j \<and> i < j)) (sort_key f xs)"
  using assms
proof (induction xs)
  case Nil
  then show ?case by simp
next
  case (Cons x xs)
  have "\<forall>y\<in>set (sort_key f xs). x < y"
    using Cons.prems by simp
  moreover have "sorted_wrt (\<lambda>i j. f i < f j \<or> (f i = f j \<and> i < j)) (sort_key f xs)"
    using Cons by simp
  ultimately show ?case
    by (simp add: insort_key_by_key_then_id)
qed

lemma sorted_wrt_less_filter_upt: "sorted_wrt (<) (filter P [0..<n])"
  by (rule sorted_wrt_filter) (simp add: sorted_wrt_upt)

lemma asOf_order:
  "sorted_wrt (\<lambda>i j. dtopen (lots s ! i) < dtopen (lots s ! j)
                     \<or> (dtopen (lots s ! i) = dtopen (lots s ! j) \<and> i < j))
     (asOf s d a b)"
  unfolding asOf_def
  by (rule sort_key_by_key_then_id) (rule sorted_wrt_less_filter_upt)

lemma longsAsOf_iff:
  "i \<in> set (longsAsOf s d a b) \<longleftrightarrow> i \<in> set (asOf s d a b) \<and> 0 < units (lots s ! i)"
  by (auto simp: longsAsOf_def)

lemma longsAsOf_order:
  "sorted_wrt (\<lambda>i j. dtopen (lots s ! i) < dtopen (lots s ! j)
                     \<or> (dtopen (lots s ! i) = dtopen (lots s ! j) \<and> i < j))
     (longsAsOf s d a b)"
  unfolding longsAsOf_def by (rule sorted_wrt_filter) (rule asOf_order)

section \<open>The loop of \<open>returnOfCapital\<close>\<close>

lemma lots_retofcap_step:
  "i < length (lots s) \<Longrightarrow>
   lots (retofcap_step t u i s) =
     (lots s)[i := retofcap_ended t (lots s ! i)] @ [retofcap_successor t u i (lots s ! i)]"
  by (simp add: retofcap_step_def Let_def add_lot_def set_lot_def add_gain_def new_Lot_def
      retofcap_ended_def retofcap_successor_def adjCost_def list_update_append)

lemma gains_retofcap_step:
  "gains (retofcap_step t u i s) =
     gains s @ (if adjCost u (lots s ! i) < 0
                then [new_Gain (dneg (adjCost u (lots s ! i))) (length (lots s)) t] else [])"
  by (simp add: retofcap_step_def Let_def add_lot_def set_lot_def add_gain_def adjCost_def)

lemma retofcap_gains_cong:
  "(\<And>i. i \<in> set ids \<Longrightarrow> ls ! i = ls' ! i) \<Longrightarrow>
   retofcap_gains t u n ls ids = retofcap_gains t u n ls' ids"
  by (induction ids arbitrary: n) auto

lemma gains_fold_retofcap_step:
  "distinct ids \<Longrightarrow> (\<forall>i\<in>set ids. i < length (lots s)) \<Longrightarrow>
   gains (fold (retofcap_step t u) ids s) =
     gains s @ retofcap_gains t u (length (lots s)) (lots s) ids"
proof (induction ids arbitrary: s)
  case Nil
  then show ?case by simp
next
  case (Cons i ids)
  let ?s1 = "retofcap_step t u i s"
  have i: "i < length (lots s)" and ni: "i \<notin> set ids" and d: "distinct ids"
    and b: "\<forall>j\<in>set ids. j < length (lots s)"
    using Cons.prems by auto
  have L1: "lots ?s1 =
      (lots s)[i := retofcap_ended t (lots s ! i)] @ [retofcap_successor t u i (lots s ! i)]"
    using lots_retofcap_step [OF i] .
  have len1: "length (lots ?s1) = Suc (length (lots s))"
    by (simp add: L1)
  have same: "lots ?s1 ! j = lots s ! j" if "j \<in> set ids" for j
  proof -
    have "j < length (lots s)" and "j \<noteq> i"
      using that b ni by auto
    then show ?thesis
      by (simp add: L1 nth_append)
  qed
  have b1: "\<forall>j\<in>set ids. j < length (lots ?s1)"
    using b len1 by auto
  have "gains (fold (retofcap_step t u) ids ?s1) =
      gains ?s1 @ retofcap_gains t u (length (lots ?s1)) (lots ?s1) ids"
    using Cons.IH [OF d b1] .
  also have "retofcap_gains t u (length (lots ?s1)) (lots ?s1) ids =
      retofcap_gains t u (Suc (length (lots s))) (lots s) ids"
    using retofcap_gains_cong [of ids "lots ?s1" "lots s"] same len1 by simp
  finally show ?case
    by (simp add: gains_retofcap_step)
qed

lemma retofcap_lots_logged:
  "retofcap_lots (fst (get_or_create s t)) t = retofcap_lots s t"
  by (simp add: retofcap_lots_def longsAsOf_def asOf_def get_or_create_def)

lemma lots_get_or_create [simp]: "lots (fst (get_or_create s t)) = lots s"
  by (simp add: get_or_create_def)

lemma gains_get_or_create [simp]: "gains (fst (get_or_create s t)) = gains s"
  by (simp add: get_or_create_def)

lemma returnOfCapital_unfold:
  assumes "checklog \<longrightarrow> invtran_id t \<notin> set (ofxlogs s)"
  shows "returnOfCapital s t checklog =
     (if retofcap_totalUnits s t = 0 then Inl (AssertionError ''totalUnits'')
      else Inr (fold (retofcap_step t (ddiv (total t) (retofcap_totalUnits s t)))
                  (retofcap_lots s t) (fst (get_or_create s t))))"
proof -
  have "checklog \<longrightarrow> snd (get_or_create s t)"
    using assms by (simp add: get_or_create_def)
  moreover have "longsAsOf (fst (get_or_create s t)) (dttrade t) None (Some (secinfo t)) =
      retofcap_lots s t"
    using retofcap_lots_logged [of s t] by (simp add: retofcap_lots_def)
  ultimately show ?thesis
    by (auto simp: returnOfCapital_def Let_def retofcap_totalUnits_def)
qed

lemma ofxlogs_fold_retofcap_step:
  "ofxlogs (fold (retofcap_step t u) ids s) = ofxlogs s"
  by (induction ids arbitrary: s)
     (simp_all add: retofcap_step_def Let_def add_lot_def set_lot_def add_gain_def)

lemma invtrans_fold_retofcap_step:
  "invtrans (fold (retofcap_step t u) ids s) = invtrans s"
  by (induction ids arbitrary: s)
     (simp_all add: retofcap_step_def Let_def add_lot_def set_lot_def add_gain_def)

lemma retofcap_lots_iff:
  "i \<in> set (retofcap_lots s t) \<longleftrightarrow>
     i < length (lots s) \<and> 0 < units (lots s ! i) \<and> security (lots s ! i) = secinfo t
     \<and> dtstart (lots s ! i) \<le> dttrade t
     \<and> (case dtend (lots s ! i) of None \<Rightarrow> True | Some e \<Rightarrow> dttrade t < e)"
  by (auto simp: retofcap_lots_def longsAsOf_iff asOf_iff)

lemma retofcap_lots_order:
  "sorted_wrt (\<lambda>i j. dtopen (lots s ! i) < dtopen (lots s ! j)
                     \<or> (dtopen (lots s ! i) = dtopen (lots s ! j) \<and> i < j))
     (retofcap_lots s t)"
  unfolding retofcap_lots_def by (rule longsAsOf_order)

lemma ofxlogs_get_or_create:
  "set (ofxlogs (fst (get_or_create s t))) = insert (invtran_id t) (set (ofxlogs s))"
  by (auto simp: get_or_create_def)

lemma invtrans_get_or_create [simp]: "invtrans (fst (get_or_create s t)) = invtrans s"
  by (simp add: get_or_create_def)

lemma retofcap_gains_member:
  "k < length ids \<Longrightarrow> adjCost u (ls ! (ids ! k)) < 0 \<Longrightarrow>
   new_Gain (dneg (adjCost u (ls ! (ids ! k)))) (n + k) t \<in> set (retofcap_gains t u n ls ids)"
proof (induction ids arbitrary: k n)
  case Nil
  then show ?case by simp
next
  case (Cons i ids)
  show ?case
  proof (cases k)
    case 0
    then show ?thesis using Cons.prems by simp
  next
    case (Suc k')
    then have "new_Gain (dneg (adjCost u (ls ! (ids ! k')))) (Suc n + k') t
        \<in> set (retofcap_gains t u (Suc n) ls ids)"
      using Cons.IH [of k' "Suc n"] Cons.prems by simp
    then show ?thesis using Suc by simp
  qed
qed

section \<open>The loop of \<open>split\<close>\<close>

lemma lots_split_step:
  "i < length (lots (snd acc)) \<Longrightarrow>
   lots (snd (split_step t r i acc)) =
     (lots (snd acc))[i := retofcap_ended t (lots (snd acc) ! i)]
       @ [split_successor t r i (lots (snd acc) ! i)]"
  by (simp add: split_step_def Let_def add_lot_def set_lot_def new_Lot_def
      retofcap_ended_def split_successor_def)



lemma fst_split_step:
  "fst (split_step t r i acc) = dadd (fst acc) (dmul (units (lots (snd acc) ! i)) r)"
  by (simp add: split_step_def Let_def new_Lot_def)

lemma fst_fold_split_step:
  "distinct ids \<Longrightarrow> (\<forall>i\<in>set ids. i < length (lots (snd acc))) \<Longrightarrow>
   fst (fold (split_step t r) ids acc) =
     foldl dadd (fst acc) (map (\<lambda>i. dmul (units (lots (snd acc) ! i)) r) ids)"
proof (induction ids arbitrary: acc)
  case Nil
  then show ?case by simp
next
  case (Cons i ids)
  let ?a1 = "split_step t r i acc"
  have i: "i < length (lots (snd acc))" and ni: "i \<notin> set ids" and d: "distinct ids"
    and b: "\<forall>j\<in>set ids. j < length (lots (snd acc))"
    using Cons.prems by auto
  have L1: "lots (snd ?a1) =
      (lots (snd acc))[i := retofcap_ended t (lots (snd acc) ! i)]
        @ [split_successor t r i (lots (snd acc) ! i)]"
    using lots_split_step [OF i] .
  have same: "lots (snd ?a1) ! j = lots (snd acc) ! j" if "j \<in> set ids" for j
  proof -
    have "j < length (lots (snd acc))" and "j \<noteq> i"
      using that b ni by auto
    then show ?thesis
      by (simp add: L1 nth_append)
  qed
  have b1: "\<forall>j\<in>set ids. j < length (lots (snd ?a1))"
    using b by (auto simp: L1)
  have "fst (fold (split_step t r) ids ?a1) =
      foldl dadd (fst ?a1) (map (\<lambda>j. dmul (units (lots (snd ?a1) ! j)) r) ids)"
    using Cons.IH [OF d b1] .
  also have "map (\<lambda>j. dmul (units (lots (snd ?a1) ! j)) r) ids =
      map (\<lambda>j. dmul (units (lots (snd acc) ! j)) r) ids"
    using same by simp
  finally show ?case
    by (simp add: fst_split_step)
qed

lemma split_lots_logged: "split_lots (fst (get_or_create s t)) t = split_lots s t"
  by (simp add: split_lots_def asOf_def get_or_create_def)

lemma split_lots_distinct: "distinct (split_lots s t)"
  by (simp add: split_lots_def asOf_distinct)

lemma split_lots_bound: "i \<in> set (split_lots s t) \<Longrightarrow> i < length (lots s)"
  by (auto simp: split_lots_def dest: asOf_bound)

lemma split_unfold:
  assumes "invtran_id t \<notin> set (ofxlogs s)"
  shows "split s t =
     (if oldunits t = 0 then Inl (div_error (newunits t))
      else if denominator t = 0 then Inl (div_error (numerator t))
      else if ddiv (newunits t) (oldunits t) \<noteq> ddiv (numerator t) (denominator t)
      then Inl ValueError
      else if dabs (dsub (split_newUnits s t) (newunits t)) < 1 / 100000000
      then Inr (snd (fold (split_step t (ddiv (newunits t) (oldunits t))) (split_lots s t)
                       (0, fst (get_or_create s t))))
      else Inl (AssertionError ''abs(newUnits - invtran.newunits) < Decimal(0.00000001)''))"
proof -
  let ?s0 = "fst (get_or_create s t)"
  have c: "snd (get_or_create s t)"
    using assms by (simp add: get_or_create_def)
  have q: "asOf ?s0 (dttrade t) None (Some (secinfo t)) = split_lots s t"
    using split_lots_logged [of s t] by (simp add: split_lots_def)
  have b: "\<forall>i\<in>set (split_lots s t). i < length (lots (snd (0::decimal, ?s0)))"
    by (auto dest: split_lots_bound)
  have "fst (fold (split_step t r) (split_lots s t) (0, ?s0)) =
      dsum (map (\<lambda>i. dmul (units (lots s ! i)) r) (split_lots s t))" for r
    using fst_fold_split_step [OF split_lots_distinct b]
    by (simp add: dsum_def)
  then show ?thesis
    using c q by (simp add: split_def Let_def split_newUnits_def)
qed




section \<open>The holding period of successor lots\<close>

lemma successors_keep_refl: "successors_keep_holding_period ls ls"
  by (simp add: successors_keep_holding_period_def)

lemma fold_supersede_keeps:
  fixes L :: "'st \<Rightarrow> Lot list"
  assumes step: "\<And>i s. i < length (L s) \<Longrightarrow>
                   L (step i s) = (L s)[i := e (L s ! i)] @ [g i (L s ! i)]"
    and e: "\<And>l. dtopen (e l) = dtopen l \<and> opener (e l) = opener l
                 \<and> predecessor (e l) = predecessor l"
    and g: "\<And>i l. predecessor (g i l) = Some i \<and> dtopen (g i l) = dtopen l
                   \<and> opener (g i l) = opener l"
    and d: "distinct ids" and b: "\<forall>i\<in>set ids. i < length (L s)"
  shows "successors_keep_holding_period (L s) (L (fold step ids s))"
proof -
  note F = fold_supersede [of L step e g, OF step d b]
  have len: "length (L (fold step ids s)) = length (L s) + length ids"
    using F by simp
  have old: "\<forall>j<length (L s). L (fold step ids s) ! j =
      (if j \<in> set ids then e (L s ! j) else L s ! j)"
    using F by simp
  have new: "\<forall>k<length ids. L (fold step ids s) ! (length (L s) + k) =
      g (ids ! k) (L s ! (ids ! k))"
    using F by simp
  have A: "\<forall>j<length (L s). dtopen (L (fold step ids s) ! j) = dtopen (L s ! j)
        \<and> opener (L (fold step ids s) ! j) = opener (L s ! j)
        \<and> predecessor (L (fold step ids s) ! j) = predecessor (L s ! j)"
    using old e by simp
  have B: "\<forall>j<length (L (fold step ids s)). length (L s) \<le> j \<longrightarrow>
      (\<exists>p<length (L s). predecessor (L (fold step ids s) ! j) = Some p
           \<and> dtopen (L (fold step ids s) ! j) = dtopen (L s ! p)
           \<and> opener (L (fold step ids s) ! j) = opener (L s ! p))"
  proof (intro allI impI)
    fix j assume j: "j < length (L (fold step ids s))" and ge: "length (L s) \<le> j"
    define k where "k = j - length (L s)"
    have k: "k < length ids" and jk: "j = length (L s) + k"
      using j ge len by (auto simp: k_def)
    have "L (fold step ids s) ! j = g (ids ! k) (L s ! (ids ! k))"
      using new k jk by simp
    moreover have "ids ! k < length (L s)"
      using b k by simp
    ultimately show "\<exists>p<length (L s). predecessor (L (fold step ids s) ! j) = Some p
           \<and> dtopen (L (fold step ids s) ! j) = dtopen (L s ! p)
           \<and> opener (L (fold step ids s) ! j) = opener (L s ! p)"
      using g by auto
  qed
  show ?thesis
    unfolding successors_keep_holding_period_def using len A B by simp
qed

lemma lots_transfer_step:
  "i < length (lots s) \<Longrightarrow>
   lots (transfer_step t tout tin sec r i s) =
     (lots s)[i := transfer_ended t tout (lots s ! i)]
       @ [transfer_successor t tin sec r i (lots s ! i)]"
  by (simp add: transfer_step_def Let_def add_lot_def set_lot_def new_Lot_def
      transfer_ended_def transfer_successor_def)

lemma returnOfCapital_keeps:
  assumes "returnOfCapital s t c = Inr s'"
  shows "successors_keep_holding_period (lots s) (lots s')"
proof (cases "c \<longrightarrow> invtran_id t \<notin> set (ofxlogs s)")
  case True
  let ?u = "ddiv (total t) (retofcap_totalUnits s t)"
  let ?s0 = "fst (get_or_create s t)"
  have s': "s' = fold (retofcap_step t ?u) (retofcap_lots s t) ?s0"
    using assms returnOfCapital_unfold [OF True] by (simp split: if_splits)
  have d: "distinct (retofcap_lots s t)"
    by (simp add: retofcap_lots_def longsAsOf_distinct)
  have b: "\<forall>i\<in>set (retofcap_lots s t). i < length (lots ?s0)"
    by (auto simp: retofcap_lots_def dest: longsAsOf_bound)
  have "successors_keep_holding_period (lots ?s0) (lots (fold (retofcap_step t ?u)
      (retofcap_lots s t) ?s0))"
    by (rule fold_supersede_keeps [of lots "retofcap_step t ?u" "retofcap_ended t"
          "retofcap_successor t ?u", OF lots_retofcap_step _ _ d b])
       (simp_all add: retofcap_ended_def retofcap_successor_def)
  then show ?thesis
    using s' by simp
next
  case False
  then have "s' = s"
    using assms by (auto simp: returnOfCapital_def Let_def get_or_create_def)
  then show ?thesis
    by (simp add: successors_keep_refl)
qed

lemma split_keeps:
  assumes "split s t = Inr s'"
  shows "successors_keep_holding_period (lots s) (lots s')"
proof (cases "invtran_id t \<in> set (ofxlogs s)")
  case True
  then have "s' = s"
    using assms by (simp add: split_def Let_def get_or_create_def)
  then show ?thesis
    by (simp add: successors_keep_refl)
next
  case False
  let ?r = "ddiv (newunits t) (oldunits t)"
  let ?s0 = "fst (get_or_create s t)"
  have s': "s' = snd (fold (split_step t ?r) (split_lots s t) (0, ?s0))"
    using assms split_unfold [OF False] by (simp split: if_splits)
  have b: "\<forall>i\<in>set (split_lots s t). i < length ((lots \<circ> snd) (0::decimal, ?s0))"
    by (auto dest: split_lots_bound)
  have step: "\<And>i acc. i < length ((lots \<circ> snd) acc) \<Longrightarrow>
      (lots \<circ> snd) (split_step t ?r i acc) =
        ((lots \<circ> snd) acc)[i := retofcap_ended t ((lots \<circ> snd) acc ! i)]
          @ [split_successor t ?r i ((lots \<circ> snd) acc ! i)]"
    using lots_split_step by simp
  have "successors_keep_holding_period ((lots \<circ> snd) (0::decimal, ?s0))
      ((lots \<circ> snd) (fold (split_step t ?r) (split_lots s t) (0, ?s0)))"
    by (rule fold_supersede_keeps [of "lots \<circ> snd" "split_step t ?r" "retofcap_ended t"
          "split_successor t ?r", OF step _ _ split_lots_distinct b])
       (simp_all add: retofcap_ended_def split_successor_def)
  then show ?thesis
    using s' by simp
qed

lemma transfer_lots_keeps:
  assumes "transfer_lots s t tout tin sec u (asOf s d a b) = Inr s'"
  shows "successors_keep_holding_period (lots s) (lots s')"
proof -
  let ?r = "ddiv (INVTRAN.units tin) u"
  have s': "s' = fold (transfer_step t tout tin sec ?r) (asOf s d a b) s"
    using assms by (simp add: transfer_lots_def split: if_splits)
  have bound: "\<forall>i\<in>set (asOf s d a b). i < length (lots s)"
    by (auto dest: asOf_bound)
  have "successors_keep_holding_period (lots s)
      (lots (fold (transfer_step t tout tin sec ?r) (asOf s d a b) s))"
    by (rule fold_supersede_keeps [of lots "transfer_step t tout tin sec ?r"
          "transfer_ended t tout" "transfer_successor t tin sec ?r",
          OF lots_transfer_step _ _ asOf_distinct bound])
       (simp_all add: transfer_ended_def transfer_successor_def)
  then show ?thesis
    using s' by simp
qed

lemma transfer_pair_keeps:
  assumes "transfer_pair s t twin = Inr s'"
  shows "successors_keep_holding_period (lots s) (lots s')"
proof -
  let ?s1 = "fst (get_or_create s twin)"
  have l1: "lots ?s1 = lots s" by simp
  have "successors_keep_holding_period (lots ?s1) (lots s')"
    using assms transfer_lots_keeps [of ?s1]
    by (auto simp: transfer_pair_def Let_def successors_keep_refl split: if_splits)
  then show ?thesis
    by simp
qed

lemma doTransfer_keeps:
  assumes "doTransfer x s t = Inr s'"
  shows "successors_keep_holding_period (lots s) (lots s')"
proof -
  let ?s0 = "fst (get_or_create s t)"
  have "successors_keep_holding_period (lots ?s0) (lots s')"
    using assms transfer_pair_keeps [of ?s0 t]
    by (auto simp: doTransfer_def Let_def successors_keep_refl one_or_none_def
        split: if_splits option.splits sum.splits list.splits)
  then show ?thesis
    by simp
qed

lemma holding_ext_refl [simp]: "holding_ext ls ls"
  by (simp add: holding_ext_def)

lemma holding_ext_trans:
  assumes ab: "holding_ext a b" and bc: "holding_ext b c"
  shows "holding_ext a c"
proof -
  have len: "length a \<le> length b" "length b \<le> length c"
    using ab bc by (auto simp: holding_ext_def)
  have oldb: "\<And>j. j < length a \<Longrightarrow> dtopen (b ! j) = dtopen (a ! j) \<and> opener (b ! j) = opener (a ! j)
      \<and> predecessor (b ! j) = predecessor (a ! j)"
    using ab by (simp add: holding_ext_def)
  have oldc: "\<And>j. j < length b \<Longrightarrow> dtopen (c ! j) = dtopen (b ! j) \<and> opener (c ! j) = opener (b ! j)
      \<and> predecessor (c ! j) = predecessor (b ! j)"
    using bc by (simp add: holding_ext_def)
  have newb: "\<And>j. j < length b \<Longrightarrow> length a \<le> j \<Longrightarrow>
      (case predecessor (b ! j) of None \<Rightarrow> True
       | Some p \<Rightarrow> p < j \<and> dtopen (b ! p) = dtopen (b ! j) \<and> opener (b ! p) = opener (b ! j))"
    using ab by (simp add: holding_ext_def)
  have newc: "\<And>j. j < length c \<Longrightarrow> length b \<le> j \<Longrightarrow>
      (case predecessor (c ! j) of None \<Rightarrow> True
       | Some p \<Rightarrow> p < j \<and> dtopen (c ! p) = dtopen (c ! j) \<and> opener (c ! p) = opener (c ! j))"
    using bc by (simp add: holding_ext_def)
  have A: "\<forall>j<length a. dtopen (c ! j) = dtopen (a ! j) \<and> opener (c ! j) = opener (a ! j)
      \<and> predecessor (c ! j) = predecessor (a ! j)"
    using oldb oldc len by auto
  have B: "\<forall>j<length c. length a \<le> j \<longrightarrow>
      (case predecessor (c ! j) of None \<Rightarrow> True
       | Some p \<Rightarrow> p < j \<and> dtopen (c ! p) = dtopen (c ! j) \<and> opener (c ! p) = opener (c ! j))"
  proof (intro allI impI)
    fix j assume j: "j < length c" and ge: "length a \<le> j"
    show "case predecessor (c ! j) of None \<Rightarrow> True
       | Some p \<Rightarrow> p < j \<and> dtopen (c ! p) = dtopen (c ! j) \<and> opener (c ! p) = opener (c ! j)"
    proof (cases "j < length b")
      case True
      show ?thesis
      proof (cases "predecessor (b ! j)")
        case None
        then show ?thesis using oldc [OF True] by simp
      next
        case (Some p)
        then have p: "p < j" "dtopen (b ! p) = dtopen (b ! j)" "opener (b ! p) = opener (b ! j)"
          using newb [OF True ge] by simp_all
        have "p < length b" using p(1) True by simp
        then show ?thesis
          using Some p oldc [OF True] oldc [of p] by simp
      qed
    next
      case False
      then show ?thesis using newc [OF j] by simp
    qed
  qed
  show ?thesis
    unfolding holding_ext_def using len A B by simp
qed

lemma holding_ext_update:
  assumes "dtopen l = dtopen (ls ! i)" "opener l = opener (ls ! i)"
    "predecessor l = predecessor (ls ! i)"
  shows "holding_ext ls (ls[i := l])"
proof (cases "i < length ls")
  case True
  have "\<forall>j<length ls. dtopen (ls[i := l] ! j) = dtopen (ls ! j)
      \<and> opener (ls[i := l] ! j) = opener (ls ! j)
      \<and> predecessor (ls[i := l] ! j) = predecessor (ls ! j)"
    using assms True by (simp add: nth_list_update)
  then show ?thesis
    unfolding holding_ext_def by simp
next
  case False
  then have "length ls \<le> i" by simp
  then show ?thesis by (simp add: list_update_beyond)
qed

lemma holding_ext_append:
  assumes "predecessor l = None"
  shows "holding_ext ls (ls @ [l])"
proof -
  have "\<forall>j<length (ls @ [l]). length ls \<le> j \<longrightarrow>
      (case predecessor ((ls @ [l]) ! j) of None \<Rightarrow> True
       | Some p \<Rightarrow> p < j \<and> dtopen ((ls @ [l]) ! p) = dtopen ((ls @ [l]) ! j)
                    \<and> opener ((ls @ [l]) ! p) = opener ((ls @ [l]) ! j))"
  proof (intro allI impI)
    fix j assume "j < length (ls @ [l])" "length ls \<le> j"
    then have "j = length ls" by simp
    then show "case predecessor ((ls @ [l]) ! j) of None \<Rightarrow> True
       | Some p \<Rightarrow> p < j \<and> dtopen ((ls @ [l]) ! p) = dtopen ((ls @ [l]) ! j)
                    \<and> opener ((ls @ [l]) ! p) = opener ((ls @ [l]) ! j)"
      using assms by simp
  qed
  then show ?thesis
    unfolding holding_ext_def by (simp add: nth_append)
qed

lemma holding_ext_chain:
  assumes "holding_period_chain ls" and "holding_ext ls ls'"
  shows "holding_period_chain ls'"
proof -
  have "holding_ext [] ls"
    using assms(1) by (simp add: holding_ext_def holding_period_chain_def)
  then have "holding_ext [] ls'"
    using assms(2) by (rule holding_ext_trans)
  then show ?thesis
    by (simp add: holding_ext_def holding_period_chain_def)
qed

lemma successors_keep_ext:
  assumes "successors_keep_holding_period ls ls'"
  shows "holding_ext ls ls'"
proof -
  have len: "length ls \<le> length ls'"
    and old: "\<And>j. j < length ls \<Longrightarrow> dtopen (ls' ! j) = dtopen (ls ! j)
        \<and> opener (ls' ! j) = opener (ls ! j) \<and> predecessor (ls' ! j) = predecessor (ls ! j)"
    and new: "\<And>j. j < length ls' \<Longrightarrow> length ls \<le> j \<Longrightarrow>
        \<exists>p<length ls. predecessor (ls' ! j) = Some p \<and> dtopen (ls' ! j) = dtopen (ls ! p)
           \<and> opener (ls' ! j) = opener (ls ! p)"
    using assms by (simp_all add: successors_keep_holding_period_def)
  have "\<forall>j<length ls'. length ls \<le> j \<longrightarrow>
      (case predecessor (ls' ! j) of None \<Rightarrow> True
       | Some p \<Rightarrow> p < j \<and> dtopen (ls' ! p) = dtopen (ls' ! j) \<and> opener (ls' ! p) = opener (ls' ! j))"
  proof (intro allI impI)
    fix j assume j: "j < length ls'" and ge: "length ls \<le> j"
    from new [OF j ge] obtain p where p: "p < length ls" "predecessor (ls' ! j) = Some p"
      "dtopen (ls' ! j) = dtopen (ls ! p)" "opener (ls' ! j) = opener (ls ! p)"
      by blast
    then show "case predecessor (ls' ! j) of None \<Rightarrow> True
       | Some p \<Rightarrow> p < j \<and> dtopen (ls' ! p) = dtopen (ls' ! j) \<and> opener (ls' ! p) = opener (ls' ! j)"
      using old [OF p(1)] ge by simp
  qed
  then show ?thesis
    unfolding holding_ext_def using len old by simp
qed

section \<open>Every operation extends the predecessor chains\<close>

lemma lots_set_gain [simp]: "lots (set_gain s g x) = lots s"
  by (simp add: set_gain_def)

lemma lots_add_gain [simp]: "lots (add_gain s x) = lots s"
  by (simp add: add_gain_def)

lemma lots_set_lot [simp]: "lots (set_lot s i l) = (lots s)[i := l]"
  by (simp add: set_lot_def)

lemma lots_add_lot [simp]: "lots (add_lot s l) = lots s @ [l]"
  by (simp add: add_lot_def)

lemma ext_update_append:
  assumes "dtopen l = dtopen (ls ! i)" "opener l = opener (ls ! i)"
    "predecessor l = predecessor (ls ! i)" "predecessor l2 = None"
  shows "holding_ext ls (ls[i := l] @ [l2])"
  using holding_ext_trans [OF holding_ext_update [OF assms(1-3)] holding_ext_append [OF assms(4)]] .

lemma trade_close_ext:
  assumes "trade_close s i t = Inr s'"
  shows "holding_ext (lots s) (lots s')"
proof -
  have "lots s' = (lots s)[i := (lots s ! i)
            \<lparr>dtclose := Some (dttrade t), closer := Some (invtran_id t),
             dtend := Some (dttrade t), ender := Some (invtran_id t)\<rparr>]"
    using assms by (auto simp: trade_close_def Let_def split: if_splits)
  then show ?thesis
    by (simp add: holding_ext_update)
qed

lemma trade_loop_ext:
  "trade_loop t ids u s = Inr r \<Longrightarrow> holding_ext (lots s) (lots (snd r))"
proof (induction ids arbitrary: u s)
  case Nil
  then show ?case by auto
next
  case (Cons i rest)
  show ?case
  proof (cases "u = 0")
    case True
    then show ?thesis using Cons.prems by auto
  next
    case False
    show ?thesis
    proof (cases "dabs (units (lots s ! i)) \<le> dabs u")
      case True
      then obtain s1 where c: "trade_close s i t = Inr s1"
        and l: "trade_loop t rest (dadd u (units (lots s ! i))) s1 = Inr r"
        using Cons.prems False by (auto simp: Let_def split: sum.splits)
      show ?thesis
        using holding_ext_trans [OF trade_close_ext [OF c] Cons.IH [OF l]] .
    next
      case F2: False
      define sm where "sm = add_lot (set_lot s i ((lots s ! i)\<lparr>units := dneg u,
            cost := dsub (cost (lots s ! i)) (dmul (dadd u (units (lots s ! i))) (unitCost (lots s ! i)))\<rparr>))
          (new_Lot (account (lots s ! i)) (security (lots s ! i)) (dadd u (units (lots s ! i)))
             (dmul (dadd u (units (lots s ! i))) (unitCost (lots s ! i)))
             (dtopen (lots s ! i)) (opener (lots s ! i)) (dtstart (lots s ! i)) (starter (lots s ! i)))"
      have m: "holding_ext (lots s) (lots sm)"
        unfolding sm_def by (simp add: new_Lot_def ext_update_append)
      from Cons.prems False F2 obtain s1 where c: "trade_close sm i t = Inr s1"
        and l: "trade_loop t rest 0 s1 = Inr r"
        unfolding sm_def by (auto simp: Let_def split: sum.splits if_splits)
      show ?thesis
        using holding_ext_trans [OF m holding_ext_trans [OF trade_close_ext [OF c] Cons.IH [OF l]]] .
    qed
  qed
qed

lemma trade_ext:
  assumes "trade s t = Inr s'"
  shows "holding_ext (lots s) (lots s')"
proof (cases "snd (get_or_create (add_invtran s t) t)")
  case False
  then have "lots s' = lots s"
    using assms by (auto simp: trade_def Let_def split: if_splits)
  then show ?thesis by simp
next
  case True
  let ?s0 = "fst (get_or_create (add_invtran s t) t)"
  from assms True obtain r where l: "trade_loop t
      (filter (\<lambda>i. units (lots ?s0 ! i) * INVTRAN.units t < 0)
         (asOf ?s0 (dttrade t) (Some (acctfrom t)) (Some (secinfo t)))) (INVTRAN.units t) ?s0 = Inr r"
    and s': "s' = trade_open (snd r) t (fst r)"
    by (auto simp: trade_def Let_def split: if_splits sum.splits)
  have a: "holding_ext (lots s) (lots (snd r))"
    using trade_loop_ext [OF l] by simp
  have b: "holding_ext (lots (snd r)) (lots s')"
    unfolding s' by (simp add: trade_open_def new_Lot_def holding_ext_append)
  show ?thesis
    using holding_ext_trans [OF a b] .
qed

lemma doIncome_ext:
  assumes "doIncome x s t = Inr s'"
  shows "holding_ext (lots s) (lots s')"
proof -
  let ?s0 = "fst (get_or_create s t)"
  have "holding_ext (lots ?s0) (lots s')"
    using assms successors_keep_ext [OF returnOfCapital_keeps, of ?s0 t False s']
    by (auto simp: doIncome_def Let_def split: if_splits option.splits list.splits)
  then show ?thesis by simp
qed

lemma doInvtran_ext:
  assumes "doInvtran x s t = Inr s'"
  shows "holding_ext (lots s) (lots s')"
  using assms trade_ext [of s t s'] doIncome_ext [of x s t s']
    successors_keep_ext [OF doTransfer_keeps, of x s t s']
    successors_keep_ext [OF returnOfCapital_keeps, of s t True s']
    successors_keep_ext [OF split_keeps, of s t s']
  by (auto simp: doInvtran_def split: if_splits trantype.splits)

lemma doInvtrans_loop_ext:
  "doInvtrans_loop x ts s = Inr s' \<Longrightarrow> holding_ext (lots s) (lots s')"
proof (induction ts arbitrary: s)
  case Nil
  then show ?case by simp
next
  case (Cons t ts)
  then obtain s1 where a: "doInvtran x s t = Inr s1" and b: "doInvtrans_loop x ts s1 = Inr s'"
    by (auto split: sum.splits)
  show ?case
    using holding_ext_trans [OF doInvtran_ext [OF a] Cons.IH [OF b]] .
qed

lemma doInvtrans_ext:
  "doInvtrans x s a b = Inr s' \<Longrightarrow> holding_ext (lots s) (lots s')"
  unfolding doInvtrans_def by (rule doInvtrans_loop_ext)

lemma loss_gains_loop_lots:
  "loss_gains_loop g wp n uu gs s = Inr s' \<Longrightarrow> lots s' = lots s"
proof (induction gs arbitrary: s)
  case Nil
  then show ?case by simp
next
  case (Cons a gs)
  then show ?case
    by (auto simp: Let_def split: if_splits dest!: Cons.IH)
qed

lemma replacement_gains_loop_lots:
  "replacement_gains_loop n gs s = Inr s' \<Longrightarrow> lots s' = lots s"
proof (induction gs arbitrary: s)
  case Nil
  then show ?case by simp
next
  case (Cons a gs)
  then show ?case
    by (auto simp: Let_def split: if_splits dest!: Cons.IH)
qed

lemma replacement_loop_ext:
  "replacement_loop ul ids ru dl s = Inr r \<Longrightarrow> holding_ext (lots s) (lots (snd (snd r)))"
proof (induction ids arbitrary: ru dl s)
  case Nil
  then show ?case by auto
next
  case (Cons i rest)
  show ?case
  proof (cases "ru = 0")
    case True
    then show ?thesis using Cons.prems by auto
  next
    case False
    show ?thesis
    proof (cases "dabs (units (lots s ! i)) \<le> dabs ru")
      case True
      define s1 where "s1 = set_lot s i ((lots s ! i)\<lparr>washcost := dmul (units (lots s ! i)) (dneg ul)\<rparr>)"
      have m: "holding_ext (lots s) (lots s1)"
        unfolding s1_def by (simp add: holding_ext_update)
      from Cons.prems False True obtain ru' dl' where l: "replacement_loop ul rest ru' dl' s1 = Inr r"
        unfolding s1_def by (auto simp: Let_def)
      show ?thesis
        using holding_ext_trans [OF m Cons.IH [OF l]] .
    next
      case F2: False
      define l' where "l' = (lots s ! i)\<lparr>units := ru, cost := dmul ru (unitCost (lots s ! i)),
          washcost := dmul ru (dneg ul)\<rparr>"
      define sm where "sm = add_lot (set_lot s i l')
          (unwashed_Lot l' (dsub (units (lots s ! i)) ru)
             (dmul (dsub (units (lots s ! i)) ru) (unitCost (lots s ! i))))"
      have m: "holding_ext (lots s) (lots sm)"
        unfolding sm_def l'_def by (simp add: unwashed_Lot_def ext_update_append)
      from Cons.prems False F2 obtain s1 ru' dl' where
        c: "replacement_gains_loop (length (lots s)) (lot_gains sm i) sm = Inr s1"
        and l: "replacement_loop ul rest ru' dl' s1 = Inr r"
        unfolding sm_def l'_def by (auto simp: Let_def split: sum.splits if_splits)
      have "holding_ext (lots s) (lots s1)"
        using m replacement_gains_loop_lots [OF c] by simp
      then show ?thesis
        using holding_ext_trans [OF _ Cons.IH [OF l]] by blast
    qed
  qed
qed

lemma washsale_apply_ext:
  assumes "washsale_apply s g ru dtc = Inr s'"
  shows "holding_ext (lots s) (lots s')"
proof -
  define self where "self = gains s ! g"
  define li where "li = lot_id self"
  define lot where "lot = lots s ! li"
  define l' where "l' = lot\<lparr>units := ru, cost := dmul ru (unitCost lot)\<rparr>"
  define uu where "uu = dsub (units lot) ru"
  define wp where "wp = dmul ru (ddiv (proceeds self) (units lot))"
  define ul where "ul = ddiv (dsub (proceeds self) (cost lot)) (units lot)"
  define s2 where "s2 = set_gain (set_gain (set_lot s li l') g (self\<lparr>proceeds := wp\<rparr>)) g
      (self\<lparr>proceeds := wp, washloss := dmul ru ul\<rparr>)"
  define r3 where "r3 = (if uu \<noteq> 0
      then loss_gains_loop g wp (length (lots s2)) uu (lot_gains s2 li)
             (add_lot s2 (unwashed_Lot l' uu (dmul uu (unitCost lot))))
      else Inr s2)"
  have eq: "washsale_apply s g ru dtc =
      (if units lot = 0 then Inl (div_error (cost lot))
       else if \<not> dabs (dsub (dsub wp (dmul ru (unitCost lot))) (dmul ru ul)) < 1 / 100000000
       then Inl (AssertionError ''abs(self.value - disallowedLoss) < Decimal(0.00000001)'')
       else (case r3 of
               Inl e \<Rightarrow> Inl e
             | Inr s3 \<Rightarrow>
                 (case replacement_loop ul
                         (replacementLots s3 li (account lot) (security lot) (units lot) dtc)
                         ru (dmul ru ul) s3 of
                    Inl e \<Rightarrow> Inl e
                  | Inr r \<Rightarrow>
                      if fst r \<noteq> 0 then Inl (AssertionError ''replacementUnits == Decimal(0)'')
                      else if fst (snd r) \<noteq> 0
                      then Inl (AssertionError ''disallowedLoss == Decimal(0)'')
                      else Inr (snd (snd r)))))"
    unfolding washsale_apply_def r3_def s2_def ul_def wp_def uu_def l'_def lot_def li_def self_def
    by (simp add: Let_def)
  from assms [unfolded eq] obtain s3 r where r3: "r3 = Inr s3"
    and r: "replacement_loop ul
              (replacementLots s3 li (account lot) (security lot) (units lot) dtc)
              ru (dmul ru ul) s3 = Inr r"
    and s': "s' = snd (snd r)"
    by (auto split: if_splits sum.splits)
  have m1: "holding_ext (lots s) (lots s2)"
    unfolding s2_def l'_def lot_def by (simp add: holding_ext_update)
  have m2: "holding_ext (lots s2) (lots s3)"
  proof (cases "uu = 0")
    case True
    then show ?thesis using r3 by (simp add: r3_def)
  next
    case False
    then have "lots s3 = lots s2 @ [unwashed_Lot l' uu (dmul uu (unitCost lot))]"
      using r3 loss_gains_loop_lots [of g wp "length (lots s2)" uu "lot_gains s2 li"
          "add_lot s2 (unwashed_Lot l' uu (dmul uu (unitCost lot)))" s3]
      by (simp add: r3_def)
    then show ?thesis
      by (simp add: unwashed_Lot_def holding_ext_append)
  qed
  show ?thesis
    using holding_ext_trans [OF m1 holding_ext_trans [OF m2 replacement_loop_ext [OF r]]] s'
    by simp
qed

lemma doWashSale_ext:
  assumes "doWashSale s g = Inr s'"
  shows "holding_ext (lots s) (lots s')"
  using assms washsale_apply_ext [of s g _ _ s']
  by (auto simp: doWashSale_def Let_def split: option.splits if_splits)

lemma doWashSales_loop_ext:
  "doWashSales_loop gs s = Inr s' \<Longrightarrow> holding_ext (lots s) (lots s')"
proof (induction gs arbitrary: s)
  case Nil
  then show ?case by simp
next
  case (Cons g gs)
  then obtain s1 where a: "doWashSale s g = Inr s1" and b: "doWashSales_loop gs s1 = Inr s'"
    by (auto split: sum.splits)
  show ?case
    using holding_ext_trans [OF doWashSale_ext [OF a] Cons.IH [OF b]] .
qed

lemma calc_ext:
  assumes "calc x s a b = Inr s'"
  shows "holding_ext (lots s) (lots s')"
proof -
  from assms obtain s1 where 1: "doInvtrans x s a b = Inr s1" and 2: "doWashSales s1 a b = Inr s'"
    by (auto simp: calc_def split: sum.splits)
  show ?thesis
    using holding_ext_trans [OF doInvtrans_ext [OF 1] doWashSales_loop_ext [OF 2 [unfolded doWashSales_def]]] .
qed

lemma lot_chain_holding:
  "holding_period_chain ls \<Longrightarrow> j < length ls \<Longrightarrow>
   \<forall>p\<in>set (lot_chain ls j). p \<le> j \<and> dtopen (ls ! p) = dtopen (ls ! j)
                               \<and> opener (ls ! p) = opener (ls ! j)"
proof (induction ls j rule: lot_chain.induct)
  case (1 ls j)
  show ?case
  proof (cases "predecessor (ls ! j)")
    case None
    then show ?thesis by (subst lot_chain.simps) simp
  next
    case (Some q)
    have link: "q < j \<and> dtopen (ls ! q) = dtopen (ls ! j) \<and> opener (ls ! q) = opener (ls ! j)"
      using "1.prems" Some by (auto simp: holding_period_chain_def)
    then have "q < length ls" using "1.prems"(2) by simp
    from "1.IH" [OF Some _ "1.prems"(1) this] link
    have "\<forall>p\<in>set (lot_chain ls q). p \<le> q \<and> dtopen (ls ! p) = dtopen (ls ! q)
                               \<and> opener (ls ! p) = opener (ls ! q)"
      by simp
    then show ?thesis
      using link Some by (subst lot_chain.simps) auto
  qed
qed

lemma returnOfCapital_length:
  assumes "c \<longrightarrow> invtran_id t \<notin> set (ofxlogs s)" and "returnOfCapital s t c = Inr s'"
  shows "length (lots s') = length (lots s) + length (retofcap_lots s t)"
proof -
  let ?u = "ddiv (total t) (retofcap_totalUnits s t)"
  let ?s0 = "fst (get_or_create s t)"
  have b: "\<forall>i\<in>set (retofcap_lots s t). i < length (lots ?s0)"
    by (auto simp: retofcap_lots_def dest: longsAsOf_bound)
  have d: "distinct (retofcap_lots s t)"
    by (simp add: retofcap_lots_def longsAsOf_distinct)
  have s': "s' = fold (retofcap_step t ?u) (retofcap_lots s t) ?s0"
    using assms returnOfCapital_unfold [OF assms(1)] by (simp split: if_splits)
  show ?thesis
    using fold_supersede [of lots "retofcap_step t ?u" "retofcap_ended t"
        "retofcap_successor t ?u", OF lots_retofcap_step d b] s'
    by simp
qed

lemma split_length:
  assumes "invtran_id t \<notin> set (ofxlogs s)" and "split s t = Inr s'"
  shows "length (lots s') = length (lots s) + length (split_lots s t)"
proof -
  let ?r = "ddiv (newunits t) (oldunits t)"
  let ?s0 = "fst (get_or_create s t)"
  have s': "s' = snd (fold (split_step t ?r) (split_lots s t) (0, ?s0))"
    using assms split_unfold [OF assms(1)] by (simp split: if_splits)
  have b: "\<forall>i\<in>set (split_lots s t). i < length ((lots \<circ> snd) (0::decimal, ?s0))"
    by (auto dest: split_lots_bound)
  have step: "\<And>i acc. i < length ((lots \<circ> snd) acc) \<Longrightarrow>
      (lots \<circ> snd) (split_step t ?r i acc) =
        ((lots \<circ> snd) acc)[i := retofcap_ended t ((lots \<circ> snd) acc ! i)]
          @ [split_successor t ?r i ((lots \<circ> snd) acc ! i)]"
    using lots_split_step by simp
  show ?thesis
    using fold_supersede [of "lots \<circ> snd" "split_step t ?r" "retofcap_ended t"
        "split_successor t ?r", OF step split_lots_distinct b] s'
    by simp
qed

lemma ledger_ops_ext:
  assumes "trade s t = Inr s' \<or> returnOfCapital s t c = Inr s' \<or> split s t = Inr s'
     \<or> doTransfer x s t = Inr s' \<or> doInvtran x s t = Inr s' \<or> calc x s a b = Inr s'"
  shows "holding_ext (lots s) (lots s')"
  using assms
proof (elim disjE)
  assume "trade s t = Inr s'"
  then show ?thesis by (rule trade_ext)
next
  assume "returnOfCapital s t c = Inr s'"
  then show ?thesis by (rule successors_keep_ext [OF returnOfCapital_keeps])
next
  assume "split s t = Inr s'"
  then show ?thesis by (rule successors_keep_ext [OF split_keeps])
next
  assume "doTransfer x s t = Inr s'"
  then show ?thesis by (rule successors_keep_ext [OF doTransfer_keeps])
next
  assume "doInvtran x s t = Inr s'"
  then show ?thesis by (rule doInvtran_ext)
next
  assume "calc x s a b = Inr s'"
  then show ?thesis by (rule calc_ext)
qed

section \<open>The event log and the table of transactions\<close>

lemma ofxlogs_set_lot [simp]: "ofxlogs (set_lot s i l) = ofxlogs s"
  by (simp add: set_lot_def)

lemma ofxlogs_add_lot [simp]: "ofxlogs (add_lot s l) = ofxlogs s"
  by (simp add: add_lot_def)

lemma ofxlogs_set_gain [simp]: "ofxlogs (set_gain s i g) = ofxlogs s"
  by (simp add: set_gain_def)

lemma ofxlogs_add_gain [simp]: "ofxlogs (add_gain s g) = ofxlogs s"
  by (simp add: add_gain_def)

lemma invtrans_set_lot [simp]: "invtrans (set_lot s i l) = invtrans s"
  by (simp add: set_lot_def)

lemma invtrans_add_lot [simp]: "invtrans (add_lot s l) = invtrans s"
  by (simp add: add_lot_def)

lemma invtrans_set_gain [simp]: "invtrans (set_gain s i g) = invtrans s"
  by (simp add: set_gain_def)

lemma invtrans_add_gain [simp]: "invtrans (add_gain s g) = invtrans s"
  by (simp add: add_gain_def)

lemma add_invtran_old [simp]: "t \<in> set (invtrans s) \<Longrightarrow> add_invtran s t = s"
  by (simp add: add_invtran_def)































section \<open>The scenarios evaluated\<close>

lemma R2000_lots: "retofcap_lots R_ledger R2000 = [1]"
  by (simp add: retofcap_lots_def R_ledger_def R2000_def other_security_def S1_eval acme_eval
      session_eval date_eval)

lemma R2000_facts:
  "length (lots R_ledger) = 4"
  "lots R_ledger ! 0 = S1_closed_lot"
  "lots R_ledger ! Suc 0 = S1_open_lot"
  "units S1_open_lot = 100"
  "cost S1_open_lot = 100333 / 100"
  "total R2000 = 2000"
  "dttrade R2000 = mkdate 2005 12 2"
  "invtran_id R2000 = 7"
  "invtran_id R2000 \<notin> set (ofxlogs R_ledger)"
  "7 \<notin> set (ofxlogs R_ledger)"
  by (simp_all add: R_ledger_def R2000_def S1_eval new_Lot_def)

lemma R2000_arith:
  "dadd 0 100 = 100"
  "ddiv 2000 100 = 20"
  "dmul 100 20 = 2000"
  "dsub (100333 / 100) 2000 = - (99667 / 100)"
  "dneg (- (99667 / 100)) = 99667 / 100"
  by (simp_all add: decimal_eval)

lemma R2000_totalUnits: "retofcap_totalUnits R_ledger R2000 = 100"
  by (simp add: retofcap_totalUnits_def dsum_def R2000_lots R2000_facts R2000_arith)

lemma SPLIT2_lots: "split_lots R_ledger SPLIT2 = [1, 2]"
  by (simp add: split_lots_def R_ledger_def SPLIT2_def other_security_def S1_eval acme_eval
      session_eval date_eval)

lemma SPLIT2_facts:
  "oldunits SPLIT2 = 50"
  "newunits SPLIT2 = 100"
  "numerator SPLIT2 = 2"
  "denominator SPLIT2 = 1"
  "dttrade SPLIT2 = mkdate 2005 12 2"
  "invtran_id SPLIT2 = 6"
  "6 \<notin> set (ofxlogs R_ledger)"
  "length (lots R_ledger) = 4"
  "units (lots R_ledger ! Suc 0) = 100"
  "units (lots R_ledger ! 2) = - 50"
  "cost (lots R_ledger ! 2) = - 500"
  by (simp_all add: R_ledger_def SPLIT2_def S1_eval new_Lot_def)

lemma SPLIT2_arith:
  "ddiv 100 50 = 2"
  "ddiv 2 1 = 2"
  "dmul 100 2 = 200"
  "dmul (- 50) 2 = - 100"
  "dadd 0 200 = 200"
  "dadd 200 (- 100) = 100"
  "dsub 100 100 = 0"
  "dabs 0 = 0"
  by (simp_all add: decimal_eval)

lemma SPLIT2_newUnits: "split_newUnits R_ledger SPLIT2 = 100"
  by (simp add: split_newUnits_def dsum_def SPLIT2_lots SPLIT2_facts SPLIT2_arith)

lemma T_trade: "trade T_start T_buy = Inr T_ledger"
  by (simp add: T_start_def T_eval acme_eval trade_eval session_eval date_eval decimal_eval)

lemma T_arith:
  "dmul (- 100) 50 = - 5000"
  "dadd 0 100 = 100"
  "dneg 100 = - 100"
  "ddiv 50 100 = 1 / 2"
  "dmul 100 (1 / 2) = 50"
  by (simp_all add: decimal_eval)

lemma T_doTransfer: "doTransfer T_externals T_ledger T_out = Inr T_done"
  by (simp add: doTransfer_def transfer_pair_def transfer_lots_def transfer_step_def
      one_or_none_def T_eval acme_eval session_eval date_eval T_arith dsum_def Let_def)

lemma T_twin: "doTransfer T_externals T_done T_in = Inr T_done"
  by (simp add: doTransfer_def T_eval get_or_create_def)

lemma T_stream: "invtrans_between T_start datetime_min datetime_max = [T_buy, T_out, T_in]"
  by (simp add: invtrans_between_def T_start_def T_eval acme_eval empty_session_def date_eval)

lemma T_doInvtrans: "doInvtrans T_externals T_start None None = Inr T_done"
  using T_trade T_doTransfer T_twin
  by (simp add: doInvtrans_def or_default_def T_stream)
     (simp add: doInvtran_def T_buy_def T_out_def T_in_def acme_eval ibkr_account_def)

lemma T_calc: "calc T_externals T_start None None = Inr T_done"
  by (simp add: calc_def T_doInvtrans doWashSales_def washsale_query_def T_done_def
      T_ledger_def)

lemma T_chain: "lot_chain (lots T_done) 1 = [1, 0]"
  by (simp add: lot_chain.simps T_done_def T_ledger_def T_lot_def new_Lot_def)



section \<open>A trade of zero units\<close>

text \<open>
  C10. A trade that is not yet in the event log and whose \<open>units\<close> are 0 finds no lot to
  close (no lot satisfies \<open>lot.units * 0 < 0\<close>) and opens none: the lots and the gains are
  those of before, the transaction is held by the session (\<open>DBSession.add(invtran)\<close>) and
  recorded in the event log, and the same trade submitted again changes nothing.
\<close>

theorem trade_zero_units:
  assumes "trantype t = INVBUYSELL" and "INVTRAN.units t = 0"
    and "invtran_id t \<notin> set (ofxlogs s)"
  shows "trade s t = Inr ((add_invtran s t)\<lparr>ofxlogs := ofxlogs s @ [invtran_id t]\<rparr>)
       \<and> lots ((add_invtran s t)\<lparr>ofxlogs := ofxlogs s @ [invtran_id t]\<rparr>) = lots s
       \<and> gains ((add_invtran s t)\<lparr>ofxlogs := ofxlogs s @ [invtran_id t]\<rparr>) = gains s
       \<and> trade ((add_invtran s t)\<lparr>ofxlogs := ofxlogs s @ [invtran_id t]\<rparr>) t =
           Inr ((add_invtran s t)\<lparr>ofxlogs := ofxlogs s @ [invtran_id t]\<rparr>)"
proof -
  let ?s' = "(add_invtran s t)\<lparr>ofxlogs := ofxlogs s @ [invtran_id t]\<rparr>"
  have new: "get_or_create (add_invtran s t) t = (?s', True)"
    using assms(3) by (simp add: get_or_create_new)
  have first: "trade s t = Inr ?s'"
    using assms(1,2) by (simp add: trade_def new trade_open_def)
  have again: "add_invtran ?s' t = ?s'"
    by (simp add: add_invtran_def)
  have old: "get_or_create ?s' t = (?s', False)"
    by (simp add: get_or_create_def)
  have second: "trade ?s' t = Inr ?s'"
    using assms(1) by (simp add: trade_def again old)
  show ?thesis
    using first second by simp
qed

theorem trade_zero_units_witness:
  "trantype (acme_trade 1 (mkdate 2005 10 3) 0 0) = INVBUYSELL
   \<and> INVTRAN.units (acme_trade 1 (mkdate 2005 10 3) 0 0) = 0
   \<and> invtran_id (acme_trade 1 (mkdate 2005 10 3) 0 0) \<notin> set (ofxlogs empty_session)
   \<and> trade empty_session (acme_trade 1 (mkdate 2005 10 3) 0 0) =
       Inr (empty_session\<lparr>invtrans := [acme_trade 1 (mkdate 2005 10 3) 0 0], ofxlogs := [1]\<rparr>)"
  using trade_zero_units [of "acme_trade 1 (mkdate 2005 10 3) 0 0" empty_session]
  by (simp add: acme_eval empty_session_def add_invtran_def)

section \<open>S1: a partial close\<close>

lemma S1_first_trade: "trade empty_session S1_buy = Inr S1_bought"
  by (simp add: S1_eval acme_eval trade_eval session_eval date_eval decimal_eval)

lemma S1_second_trade: "trade S1_bought S1_sell = Inr S1_sold"
  by (simp add: S1_eval acme_eval trade_eval session_eval date_eval decimal_eval)

lemma S1_gain_value: "Gain_value S1_sold S1_gain = 38335 / 100"
  by (simp add: S1_eval Gain_value_def Gain_cost_def decimal_eval)

lemma S1_short_term: "\<not> isLongTerm S1_sold S1_gain"
  by (simp add: S1_eval acme_eval isLongTerm_def Gain_units_def Gain_dtclose_def
      Gain_dtopen_def date_eval)

text \<open>
  C3. On an empty ledger the buy of 300 units for 3009.99 and the sale of 200 of them for
  2390.01 leave two lots and one gain: the closed lot of 200 units with cost 2006.66,
  whose gain has proceeds 2390.01 and value 383.35 and is short-term, and the open lot of
  100 units with cost 1003.33.
\<close>

theorem S1_partial_close:
  "trade empty_session S1_buy = Inr S1_bought
   \<and> trade S1_bought S1_sell = Inr S1_sold
   \<and> lots S1_sold = [S1_closed_lot, S1_open_lot]
   \<and> units S1_closed_lot = 200 \<and> cost S1_closed_lot = 200666 / 100
   \<and> dtclose S1_closed_lot = Some (dttrade S1_sell)
   \<and> units S1_open_lot = 100 \<and> cost S1_open_lot = 100333 / 100
   \<and> dtclose S1_open_lot = None
   \<and> gains S1_sold = [S1_gain]
   \<and> lot_id S1_gain = 0 \<and> proceeds S1_gain = 239001 / 100
   \<and> Gain_value S1_sold S1_gain = 38335 / 100
   \<and> isLongTerm S1_sold S1_gain = False"
  using S1_first_trade S1_second_trade S1_gain_value S1_short_term
  by (simp add: S1_sold_def S1_closed_lot_def S1_open_lot_def S1_gain_def S1_sell_def
      acme_trade_def new_Lot_def)

section \<open>The final assertions of \<open>doWashSale\<close>\<close>

lemma W_arith:
  "dsub 7 8 = (- 1)"
  "dadd 0 3 = 3"
  "dadd 3 4 = 7"
  "dabs 7 = 7"
  "effective_units 7 7 = Some 7"
  "dsub 7 7 = 0"
  "ddiv 8 7 = (1142857142857142857142857143 / 1000000000000000000000000000)"
  "dmul 7 (1142857142857142857142857143 / 1000000000000000000000000000) = (8000000000000000000000000001 / 1000000000000000000000000000)"
  "dmul 0 (1142857142857142857142857143 / 1000000000000000000000000000) = 0"
  "ddiv 7 7 = 1"
  "dmul 7 1 = 7"
  "ddiv (- 1) 7 = (- (1428571428571428571428571429 / 10000000000000000000000000000))"
  "dmul 7 (- (1428571428571428571428571429 / 10000000000000000000000000000)) = (- 1)"
  "dsub 7 (8000000000000000000000000001 / 1000000000000000000000000000) = (- (1000000000000000000000000001 / 1000000000000000000000000000))"
  "dsub (- (1000000000000000000000000001 / 1000000000000000000000000000)) (- 1) = (- (1 / 1000000000000000000000000000))"
  "dabs (- (1 / 1000000000000000000000000000)) = (1 / 1000000000000000000000000000)"
  "dabs 3 = 3"
  "dneg (- (1428571428571428571428571429 / 10000000000000000000000000000)) = (1428571428571428571428571429 / 10000000000000000000000000000)"
  "dmul 3 (1428571428571428571428571429 / 10000000000000000000000000000) = (4285714285714285714285714287 / 10000000000000000000000000000)"
  "dsub 7 3 = 4"
  "dadd (- 1) (4285714285714285714285714287 / 10000000000000000000000000000) = (- (5714285714285714285714285713 / 10000000000000000000000000000))"
  "dabs 4 = 4"
  "dmul 4 (1428571428571428571428571429 / 10000000000000000000000000000) = (1428571428571428571428571429 / 2500000000000000000000000000)"
  "dsub 4 4 = 0"
  "dadd (- (5714285714285714285714285713 / 10000000000000000000000000000)) (1428571428571428571428571429 / 2500000000000000000000000000) = (3 / 10000000000000000000000000000)"
  by (simp_all add: float_eval decimal_eval)

lemma W_stream:
  "invtrans_between W_start datetime_min datetime_max = [W_buy7, W_sell7, W_buy3, W_buy4]"
  by (simp add: invtrans_between_def W_eval acme_eval date_eval empty_session_def)

lemma W_trade1: "trade W_start W_buy7 = Inr W_bought7"
  by (simp add: W_eval acme_eval trade_eval session_eval date_eval decimal_eval)

lemma W_trade2: "trade W_bought7 W_sell7 = Inr W_sold7"
  by (simp add: W_eval acme_eval trade_eval session_eval date_eval decimal_eval)

lemma W_trade3: "trade W_sold7 W_buy3 = Inr W_bought3"
  by (simp add: W_eval acme_eval trade_eval session_eval date_eval decimal_eval)

lemma W_trade4: "trade W_bought3 W_buy4 = Inr W_ledger"
  by (simp add: W_eval acme_eval trade_eval session_eval date_eval decimal_eval)

lemma W_doInvtran:
  "doInvtran x s (acme_trade n dt u tot) = trade s (acme_trade n dt u tot)"
  by (simp add: doInvtran_def acme_eval)

lemma W_doInvtrans: "doInvtrans x W_start None None = Inr W_ledger"
  using W_trade1 W_trade2 W_trade3 W_trade4
  by (simp add: doInvtrans_def or_default_def W_stream)
     (simp add: W_buy7_def W_sell7_def W_buy3_def W_buy4_def W_doInvtran)

lemma W_query: "washsale_query W_ledger datetime_min datetime_max = [0]"
  by (simp add: washsale_query_def W_eval acme_eval date_eval new_Lot_def new_Gain_def
      empty_session_def)

lemma W_doWashSale:
  "doWashSale W_ledger 0 = Inl (AssertionError ''disallowedLoss == Decimal(0)'')"
  by (simp add: W_eval acme_eval washsale_eval session_eval date_eval W_arith Let_def
      dsum_def)

text \<open>
  C2. The claim is what the last two assertions of \<open>doWashSale\<close> say: after the loop the
  running \<open>replacementUnits\<close> is 0 and \<open>disallowedLoss\<close>, to which every \<open>washcost\<close> was
  added, is 0. The code does not keep it. On the four trades of \<open>W_start\<close> the loss of 1
  on 7 units gives \<open>unitLoss = -0.1428571428571428571428571429\<close> (28 digits); the washloss
  \<open>7 * unitLoss\<close> rounds to \<open>-1\<close>, the two washcosts \<open>3 * -unitLoss\<close> and \<open>4 * -unitLoss\<close>
  are exact and add up to \<open>1.0000000000000000000000000003\<close>, and \<open>calc\<close> stops at
  \<open>assert disallowedLoss == Decimal('0')\<close>.
\<close>

theorem calc_final_assertion_fails:
  "calc x W_start None None = Inl (AssertionError ''disallowedLoss == Decimal(0)'')"
  by (simp add: calc_def W_doInvtrans doWashSales_def or_default_def W_query W_doWashSale)

section \<open>The effective wash sale units\<close>

text \<open>
  C4. The effective unit count is \<open>Decimal(math.copysign(min(...), replacementUnits))\<close>, and
  \<open>math.copysign\<close> returns a binary \<open>float\<close>. With 0.1 replacement units against a lot
  of 0.3 units the result is the double nearest to 0.1,
  \<open>0.1000000000000000055511151231257827021181583404541015625\<close>, not
  \<open>sign(0.1) * min(|0.1|, |0.3|) = 0.1\<close>.
\<close>

theorem effective_units_through_float:
  "effective_units (1 / 10) (3 / 10) = Some (3602879701896397 / 36028797018963968)
   \<and> effective_units (1 / 10) (3 / 10) \<noteq> Some (sgn (1 / 10) * min \<bar>1 / 10\<bar> \<bar>3 / 10\<bar>)"
  by (simp add: float_eval decimal_eval)

section \<open>The gains \<open>doWashSales\<close> selects\<close>

text \<open>
  C1. The query of \<open>doWashSales\<close> compares the window with \<open>Lot.dtopen\<close>
  (\<open>dtstart < dtopen \<le> dtend\<close>), not with \<open>Lot.dtclose\<close>. In the ledger of S1 the lot
  opened on 2005-10-03 and closed on 2005-12-01 has a gain with \<open>washloss = 0\<close>: the window
  from 2005-11-01 to 2005-12-31, in which the lot was closed, selects nothing, and the
  window from 2005-09-01 to 2005-10-31, after which it was closed, selects the gain.
\<close>

theorem washsale_query_by_dtopen:
  "dtclose (lots S1_sold ! 0) = Some (mkdate 2005 12 1)
   \<and> washloss (gains S1_sold ! 0) = 0 \<and> lot_id (gains S1_sold ! 0) = 0
   \<and> washsale_query S1_sold (mkdate 2005 11 1) (mkdate 2005 12 31) = []
   \<and> washsale_query S1_sold (mkdate 2005 9 1) (mkdate 2005 10 31) = [0]"
  by (simp add: washsale_query_def S1_eval acme_eval date_eval new_Lot_def)

section \<open>Return of capital\<close>

text \<open>
  C6. \<open>retofcap_lots s t\<close>, the lots a return of capital \<open>t\<close> is applied to, are exactly
  the lots of the session with \<open>units > 0\<close>, the security of \<open>t\<close> (of any account),
  \<open>dtstart \<le> t.dttrade\<close> and \<open>dtend\<close> null or later than \<open>t.dttrade\<close>: the long lots of
  the security that are current, not yet ended, at the date of the event; they come by
  \<open>(dtopen, id)\<close>. An event that is processed (not yet logged, or called with
  \<open>checklog = False\<close>) raises the assertion error (\<open>no units\<close>) if their units add up to 0.
  Otherwise every such lot is ended by the event at its date, every other lot is left as
  it is, and for the \<open>k\<close>-th of them a successor is appended with the same units,
  washcost, dtopen, opener, account and security, the lot as predecessor, the event as
  starter at its date, and the cost \<open>lot.cost - lot.units * (total / totalUnits)\<close>,
  replaced by 0 when that is negative; in that case a gain with the excess as proceeds is
  added on the successor, and these are the only gains added (\<open>retofcap_gains\<close>). All
  arithmetic is that of \<open>Decimal\<close>.
\<close>

theorem returnOfCapital_effect:
  assumes "checklog \<longrightarrow> invtran_id t \<notin> set (ofxlogs s)"
  shows "(\<forall>i. i \<in> set (retofcap_lots s t) \<longleftrightarrow>
               i < length (lots s) \<and> 0 < units (lots s ! i)
               \<and> security (lots s ! i) = secinfo t
               \<and> dtstart (lots s ! i) \<le> dttrade t
               \<and> (case dtend (lots s ! i) of None \<Rightarrow> True | Some e \<Rightarrow> dttrade t < e))
       \<and> distinct (retofcap_lots s t)
       \<and> sorted_wrt (\<lambda>i j. dtopen (lots s ! i) < dtopen (lots s ! j)
                            \<or> (dtopen (lots s ! i) = dtopen (lots s ! j) \<and> i < j))
            (retofcap_lots s t)
       \<and> retofcap_totalUnits s t =
            foldl dadd 0 (map (\<lambda>i. units (lots s ! i)) (retofcap_lots s t))
       \<and> (retofcap_totalUnits s t = 0 \<longrightarrow>
            returnOfCapital s t checklog = Inl (AssertionError ''totalUnits''))
       \<and> (retofcap_totalUnits s t \<noteq> 0 \<longrightarrow>
            (\<exists>s'. returnOfCapital s t checklog = Inr s'
               \<and> length (lots s') = length (lots s) + length (retofcap_lots s t)
               \<and> invtrans s' = invtrans s
               \<and> set (ofxlogs s') = insert (invtran_id t) (set (ofxlogs s))
               \<and> gains s' = gains s @ retofcap_gains t (ddiv (total t) (retofcap_totalUnits s t))
                                         (length (lots s)) (lots s) (retofcap_lots s t)
               \<and> (\<forall>j<length (lots s). j \<notin> set (retofcap_lots s t) \<longrightarrow>
                     lots s' ! j = lots s ! j)
               \<and> (\<forall>k<length (retofcap_lots s t).
                    lots s' ! (retofcap_lots s t ! k) =
                      (lots s ! (retofcap_lots s t ! k))
                        \<lparr>ender := Some (invtran_id t), dtend := Some (dttrade t)\<rparr>
                  \<and> lots s' ! (length (lots s) + k) =
                      \<lparr>dtopen = dtopen (lots s ! (retofcap_lots s t ! k)),
                       dtclose = None, dtstart = dttrade t, dtend = None,
                       units = units (lots s ! (retofcap_lots s t ! k)),
                       cost =
                         (if dsub (cost (lots s ! (retofcap_lots s t ! k)))
                               (dmul (units (lots s ! (retofcap_lots s t ! k)))
                                  (ddiv (total t) (retofcap_totalUnits s t))) < 0
                          then 0
                          else dsub (cost (lots s ! (retofcap_lots s t ! k)))
                                 (dmul (units (lots s ! (retofcap_lots s t ! k)))
                                    (ddiv (total t) (retofcap_totalUnits s t)))),
                       washcost = washcost (lots s ! (retofcap_lots s t ! k)),
                       account = account (lots s ! (retofcap_lots s t ! k)),
                       security = security (lots s ! (retofcap_lots s t ! k)),
                       opener = opener (lots s ! (retofcap_lots s t ! k)),
                       closer = None, starter = Some (invtran_id t), ender = None,
                       predecessor = Some (retofcap_lots s t ! k)\<rparr>
                  \<and> (dsub (cost (lots s ! (retofcap_lots s t ! k)))
                          (dmul (units (lots s ! (retofcap_lots s t ! k)))
                             (ddiv (total t) (retofcap_totalUnits s t))) < 0 \<longrightarrow>
                       new_Gain
                         (dneg (dsub (cost (lots s ! (retofcap_lots s t ! k)))
                                  (dmul (units (lots s ! (retofcap_lots s t ! k)))
                                     (ddiv (total t) (retofcap_totalUnits s t)))))
                         (length (lots s) + k) t \<in> set (gains s')))))"
proof -
  let ?u = "ddiv (total t) (retofcap_totalUnits s t)"
  let ?ids = "retofcap_lots s t"
  let ?s0 = "fst (get_or_create s t)"
  let ?s' = "fold (retofcap_step t ?u) ?ids ?s0"
  have sel: "\<forall>i. i \<in> set ?ids \<longleftrightarrow>
               i < length (lots s) \<and> 0 < units (lots s ! i)
               \<and> security (lots s ! i) = secinfo t
               \<and> dtstart (lots s ! i) \<le> dttrade t
               \<and> (case dtend (lots s ! i) of None \<Rightarrow> True | Some e \<Rightarrow> dttrade t < e)"
    using retofcap_lots_iff by blast
  have d: "distinct ?ids"
    by (simp add: retofcap_lots_def longsAsOf_distinct)
  have ord: "sorted_wrt (\<lambda>i j. dtopen (lots s ! i) < dtopen (lots s ! j)
                            \<or> (dtopen (lots s ! i) = dtopen (lots s ! j) \<and> i < j)) ?ids"
    by (rule retofcap_lots_order)
  have tot: "retofcap_totalUnits s t = foldl dadd 0 (map (\<lambda>i. units (lots s ! i)) ?ids)"
    by (simp add: retofcap_totalUnits_def dsum_def)
  have err: "retofcap_totalUnits s t = 0 \<longrightarrow>
      returnOfCapital s t checklog = Inl (AssertionError ''totalUnits'')"
    using returnOfCapital_unfold [OF assms] by simp
  have run: "retofcap_totalUnits s t \<noteq> 0 \<longrightarrow> returnOfCapital s t checklog = Inr ?s'"
    using returnOfCapital_unfold [OF assms] by simp
  have b: "\<forall>i\<in>set ?ids. i < length (lots ?s0)"
    by (auto simp: retofcap_lots_def dest: longsAsOf_bound)
  have step: "\<And>i s. i < length (lots s) \<Longrightarrow>
      lots (retofcap_step t ?u i s) =
        (lots s)[i := retofcap_ended t (lots s ! i)] @ [retofcap_successor t ?u i (lots s ! i)]"
    by (rule lots_retofcap_step)
  note F = fold_supersede [of lots "retofcap_step t ?u" "retofcap_ended t"
      "retofcap_successor t ?u", OF step d b]
  have len: "length (lots ?s') = length (lots s) + length ?ids"
    using F by simp
  have old: "\<forall>j<length (lots s). lots ?s' ! j =
      (if j \<in> set ?ids then retofcap_ended t (lots s ! j) else lots s ! j)"
    using F by simp
  have new: "\<forall>k<length ?ids. lots ?s' ! (length (lots s) + k) =
      retofcap_successor t ?u (?ids ! k) (lots s ! (?ids ! k))"
    using F by simp
  have frame: "\<forall>j<length (lots s). j \<notin> set ?ids \<longrightarrow> lots ?s' ! j = lots s ! j"
    using old by simp
  have tr: "invtrans ?s' = invtrans s"
    by (simp add: invtrans_fold_retofcap_step)
  have lg: "set (ofxlogs ?s') = insert (invtran_id t) (set (ofxlogs s))"
    by (simp add: ofxlogs_fold_retofcap_step ofxlogs_get_or_create)
  have g: "gains ?s' = gains s @ retofcap_gains t ?u (length (lots s)) (lots s) ?ids"
    using gains_fold_retofcap_step [OF d b] by simp
  have each: "\<forall>k<length ?ids.
        lots ?s' ! (?ids ! k) =
          (lots s ! (?ids ! k))\<lparr>ender := Some (invtran_id t), dtend := Some (dttrade t)\<rparr>
      \<and> lots ?s' ! (length (lots s) + k) =
          retofcap_successor t ?u (?ids ! k) (lots s ! (?ids ! k))
      \<and> (adjCost ?u (lots s ! (?ids ! k)) < 0 \<longrightarrow>
           new_Gain (dneg (adjCost ?u (lots s ! (?ids ! k)))) (length (lots s) + k) t
             \<in> set (gains ?s'))"
  proof (intro allI impI)
    fix k assume k: "k < length ?ids"
    then have mem: "?ids ! k \<in> set ?ids" by simp
    then have "?ids ! k < length (lots s)" using b by auto
    then have e: "lots ?s' ! (?ids ! k) = retofcap_ended t (lots s ! (?ids ! k))"
      using old mem by simp
    have m: "adjCost ?u (lots s ! (?ids ! k)) < 0 \<longrightarrow>
           new_Gain (dneg (adjCost ?u (lots s ! (?ids ! k)))) (length (lots s) + k) t
             \<in> set (gains ?s')"
      using retofcap_gains_member [OF k] g by simp
    show "lots ?s' ! (?ids ! k) =
          (lots s ! (?ids ! k))\<lparr>ender := Some (invtran_id t), dtend := Some (dttrade t)\<rparr>
      \<and> lots ?s' ! (length (lots s) + k) =
          retofcap_successor t ?u (?ids ! k) (lots s ! (?ids ! k))
      \<and> (adjCost ?u (lots s ! (?ids ! k)) < 0 \<longrightarrow>
           new_Gain (dneg (adjCost ?u (lots s ! (?ids ! k)))) (length (lots s) + k) t
             \<in> set (gains ?s'))"
      using e new k m by (simp add: retofcap_ended_def)
  qed
  have ok: "retofcap_totalUnits s t \<noteq> 0 \<longrightarrow>
      (\<exists>s'. returnOfCapital s t checklog = Inr s'
         \<and> length (lots s') = length (lots s) + length ?ids
         \<and> invtrans s' = invtrans s
         \<and> set (ofxlogs s') = insert (invtran_id t) (set (ofxlogs s))
         \<and> gains s' = gains s @ retofcap_gains t ?u (length (lots s)) (lots s) ?ids
         \<and> (\<forall>j<length (lots s). j \<notin> set ?ids \<longrightarrow> lots s' ! j = lots s ! j)
         \<and> (\<forall>k<length ?ids.
              lots s' ! (?ids ! k) =
                (lots s ! (?ids ! k))\<lparr>ender := Some (invtran_id t), dtend := Some (dttrade t)\<rparr>
            \<and> lots s' ! (length (lots s) + k) =
                retofcap_successor t ?u (?ids ! k) (lots s ! (?ids ! k))
            \<and> (adjCost ?u (lots s ! (?ids ! k)) < 0 \<longrightarrow>
                 new_Gain (dneg (adjCost ?u (lots s ! (?ids ! k)))) (length (lots s) + k) t
                   \<in> set (gains s'))))"
    using run len tr lg g frame each by blast
  show ?thesis
    using sel d ord tot err ok
    unfolding retofcap_successor_def adjCost_def by blast
qed

theorem returnOfCapital_effect_witness:
  "invtran_id R2000 \<notin> set (ofxlogs R_ledger)
   \<and> retofcap_lots R_ledger R2000 = [1]
   \<and> retofcap_totalUnits R_ledger R2000 = 100
   \<and> (\<exists>s'. returnOfCapital R_ledger R2000 True = Inr s'
          \<and> length (lots s') = 5
          \<and> lots s' ! 0 = lots R_ledger ! 0
          \<and> lots s' ! 2 = lots R_ledger ! 2
          \<and> lots s' ! 3 = lots R_ledger ! 3
          \<and> lots s' ! 1 = S1_open_lot\<lparr>ender := Some 7, dtend := Some (mkdate 2005 12 2)\<rparr>
          \<and> units (lots s' ! 4) = 100 \<and> cost (lots s' ! 4) = 0
          \<and> dtopen (lots s' ! 4) = dtopen S1_open_lot
          \<and> predecessor (lots s' ! 4) = Some 1
          \<and> new_Gain (99667 / 100) 4 R2000 \<in> set (gains s'))"
proof -
  have new: "True \<longrightarrow> invtran_id R2000 \<notin> set (ofxlogs R_ledger)"
    by (simp add: R2000_facts)
  have tot: "retofcap_totalUnits R_ledger R2000 \<noteq> 0"
    by (simp add: R2000_totalUnits)
  from returnOfCapital_effect [OF new] tot
  obtain s' where run: "returnOfCapital R_ledger R2000 True = Inr s'"
    and len: "length (lots s') = length (lots R_ledger) + length (retofcap_lots R_ledger R2000)"
    and frame: "\<forall>j<length (lots R_ledger). j \<notin> set (retofcap_lots R_ledger R2000) \<longrightarrow>
                  lots s' ! j = lots R_ledger ! j"
    and each: "\<forall>k<length (retofcap_lots R_ledger R2000).
        lots s' ! (retofcap_lots R_ledger R2000 ! k) =
          (lots R_ledger ! (retofcap_lots R_ledger R2000 ! k))
            \<lparr>ender := Some (invtran_id R2000), dtend := Some (dttrade R2000)\<rparr>
      \<and> lots s' ! (length (lots R_ledger) + k) =
          \<lparr>dtopen = dtopen (lots R_ledger ! (retofcap_lots R_ledger R2000 ! k)),
           dtclose = None, dtstart = dttrade R2000, dtend = None,
           units = units (lots R_ledger ! (retofcap_lots R_ledger R2000 ! k)),
           cost =
             (if dsub (cost (lots R_ledger ! (retofcap_lots R_ledger R2000 ! k)))
                   (dmul (units (lots R_ledger ! (retofcap_lots R_ledger R2000 ! k)))
                      (ddiv (total R2000) (retofcap_totalUnits R_ledger R2000))) < 0
              then 0
              else dsub (cost (lots R_ledger ! (retofcap_lots R_ledger R2000 ! k)))
                     (dmul (units (lots R_ledger ! (retofcap_lots R_ledger R2000 ! k)))
                        (ddiv (total R2000) (retofcap_totalUnits R_ledger R2000)))),
           washcost = washcost (lots R_ledger ! (retofcap_lots R_ledger R2000 ! k)),
           account = account (lots R_ledger ! (retofcap_lots R_ledger R2000 ! k)),
           security = security (lots R_ledger ! (retofcap_lots R_ledger R2000 ! k)),
           opener = opener (lots R_ledger ! (retofcap_lots R_ledger R2000 ! k)),
           closer = None, starter = Some (invtran_id R2000), ender = None,
           predecessor = Some (retofcap_lots R_ledger R2000 ! k)\<rparr>
      \<and> (dsub (cost (lots R_ledger ! (retofcap_lots R_ledger R2000 ! k)))
              (dmul (units (lots R_ledger ! (retofcap_lots R_ledger R2000 ! k)))
                 (ddiv (total R2000) (retofcap_totalUnits R_ledger R2000))) < 0 \<longrightarrow>
           new_Gain
             (dneg (dsub (cost (lots R_ledger ! (retofcap_lots R_ledger R2000 ! k)))
                      (dmul (units (lots R_ledger ! (retofcap_lots R_ledger R2000 ! k)))
                         (ddiv (total R2000) (retofcap_totalUnits R_ledger R2000)))))
             (length (lots R_ledger) + k) R2000 \<in> set (gains s'))"
    by blast
  have l5: "length (lots s') = 5"
    using len by (simp add: R2000_lots R2000_facts)
  have f0: "lots s' ! 0 = lots R_ledger ! 0"
    using frame [rule_format, of 0] by (simp add: R2000_lots R2000_facts)
  have f2: "lots s' ! 2 = lots R_ledger ! 2"
    using frame [rule_format, of 2] by (simp add: R2000_lots R2000_facts)
  have f3: "lots s' ! 3 = lots R_ledger ! 3"
    using frame [rule_format, of 3] by (simp add: R2000_lots R2000_facts)
  have k0: "lots s' ! 1 = S1_open_lot\<lparr>ender := Some 7, dtend := Some (mkdate 2005 12 2)\<rparr>
      \<and> units (lots s' ! 4) = 100 \<and> cost (lots s' ! 4) = 0
      \<and> dtopen (lots s' ! 4) = dtopen S1_open_lot
      \<and> predecessor (lots s' ! 4) = Some 1
      \<and> new_Gain (99667 / 100) 4 R2000 \<in> set (gains s')"
    using each [rule_format, of 0]
    by (simp add: R2000_lots R2000_totalUnits R2000_facts R2000_arith)
  show ?thesis
    using run l5 f0 f2 f3 k0 R2000_lots R2000_totalUnits R2000_facts(9) by blast
qed

section \<open>Stock splits\<close>




section \<open>Successor lots and the holding period\<close>

text \<open>
  C8. A return of capital, a split and a transfer leave \<open>dtopen\<close>, \<open>opener\<close> and
  \<open>predecessor\<close> of the lots there are as they were, and every lot they add is the
  successor of one of these, with the \<open>dtopen\<close> and the \<open>opener\<close> of that predecessor; a
  return of capital and a split that are not in the log add one lot for each lot they
  apply to. No operation of the ledger breaks this: if every lot with a predecessor has
  the \<open>dtopen\<close> and \<open>opener\<close> of its predecessor before a trade, a return of capital, a
  split, a transfer, any dispatched transaction or the whole of \<open>calc\<close>, then so it is
  after, and then every lot of the predecessor chain of a lot has the \<open>dtopen\<close> and the
  \<open>opener\<close> of that lot. \<open>Gain.isLongTerm\<close> reads the holding period from the \<open>dtopen\<close> of
  the lot of the gain.
\<close>

theorem successors_carry_holding_period:
  "(returnOfCapital s t c = Inr s' \<or> split s t = Inr s' \<or> doTransfer x s t = Inr s' \<longrightarrow>
      length (lots s) \<le> length (lots s')
      \<and> (\<forall>j<length (lots s). dtopen (lots s' ! j) = dtopen (lots s ! j)
                              \<and> opener (lots s' ! j) = opener (lots s ! j)
                              \<and> predecessor (lots s' ! j) = predecessor (lots s ! j))
      \<and> (\<forall>j<length (lots s'). length (lots s) \<le> j \<longrightarrow>
            (\<exists>p<length (lots s). predecessor (lots s' ! j) = Some p
                                  \<and> dtopen (lots s' ! j) = dtopen (lots s ! p)
                                  \<and> opener (lots s' ! j) = opener (lots s ! p))))
   \<and> ((c \<longrightarrow> invtran_id t \<notin> set (ofxlogs s)) \<and> returnOfCapital s t c = Inr s' \<longrightarrow>
        length (lots s') = length (lots s) + length (retofcap_lots s t))
   \<and> (invtran_id t \<notin> set (ofxlogs s) \<and> split s t = Inr s' \<longrightarrow>
        length (lots s') = length (lots s) + length (split_lots s t))
   \<and> (holding_period_chain (lots s)
        \<and> (trade s t = Inr s' \<or> returnOfCapital s t c = Inr s' \<or> split s t = Inr s'
             \<or> doTransfer x s t = Inr s' \<or> doInvtran x s t = Inr s'
             \<or> calc x s a b = Inr s') \<longrightarrow>
        holding_period_chain (lots s')
        \<and> (\<forall>j<length (lots s'). \<forall>p\<in>set (lot_chain (lots s') j).
              dtopen (lots s' ! p) = dtopen (lots s' ! j)
              \<and> opener (lots s' ! p) = opener (lots s' ! j)
              \<and> (\<forall>g. Gain_dtopen s' (g\<lparr>lot_id := p\<rparr>) = Gain_dtopen s' (g\<lparr>lot_id := j\<rparr>))))"
proof -
  have A: "successors_keep_holding_period (lots s) (lots s')"
    if "returnOfCapital s t c = Inr s' \<or> split s t = Inr s' \<or> doTransfer x s t = Inr s'"
    using that returnOfCapital_keeps split_keeps doTransfer_keeps by blast
  have C: "holding_period_chain (lots s')
        \<and> (\<forall>j<length (lots s'). \<forall>p\<in>set (lot_chain (lots s') j).
              dtopen (lots s' ! p) = dtopen (lots s' ! j)
              \<and> opener (lots s' ! p) = opener (lots s' ! j)
              \<and> (\<forall>g. Gain_dtopen s' (g\<lparr>lot_id := p\<rparr>) = Gain_dtopen s' (g\<lparr>lot_id := j\<rparr>)))"
    if ch: "holding_period_chain (lots s)"
      and op: "trade s t = Inr s' \<or> returnOfCapital s t c = Inr s' \<or> split s t = Inr s'
             \<or> doTransfer x s t = Inr s' \<or> doInvtran x s t = Inr s'
             \<or> calc x s a b = Inr s'"
  proof -
    have ch': "holding_period_chain (lots s')"
      using holding_ext_chain [OF ch ledger_ops_ext [OF op]] .
    show ?thesis
      using ch' lot_chain_holding [OF ch'] by (simp add: Gain_dtopen_def)
  qed
  show ?thesis
    using A [unfolded successors_keep_holding_period_def] returnOfCapital_length split_length C
    by blast
qed

theorem successors_carry_holding_period_witness:
  "doTransfer T_externals T_ledger T_out = Inr T_done
   \<and> calc T_externals T_start None None = Inr T_done
   \<and> holding_period_chain (lots T_start)
   \<and> holding_period_chain (lots T_done)
   \<and> length (lots T_ledger) = 1 \<and> length (lots T_done) = 2
   \<and> dtopen (lots T_done ! 0) = dtopen (lots T_ledger ! 0)
   \<and> opener (lots T_done ! 0) = opener (lots T_ledger ! 0)
   \<and> predecessor (lots T_done ! 1) = Some 0
   \<and> dtopen (lots T_done ! 1) = dtopen (lots T_ledger ! 0)
   \<and> opener (lots T_done ! 1) = opener (lots T_ledger ! 0)
   \<and> dtopen (lots T_done ! 1) = mkdate 2005 10 3
   \<and> dtstart (lots T_done ! 1) = mkdate 2005 12 2
   \<and> lot_chain (lots T_done) 1 = [1, 0]
   \<and> (\<exists>s'. returnOfCapital R_ledger R2000 True = Inr s'
          \<and> length (lots s') = 5
          \<and> predecessor (lots s' ! 4) = Some 1
          \<and> dtopen (lots s' ! 4) = dtopen (lots R_ledger ! 1)
          \<and> opener (lots s' ! 4) = opener (lots R_ledger ! 1))
   \<and> (\<exists>s'. split R_ledger SPLIT2 = Inr s'
          \<and> length (lots s') = 6
          \<and> (\<exists>p<4. predecessor (lots s' ! 4) = Some p
                   \<and> dtopen (lots s' ! 4) = dtopen (lots R_ledger ! p)
                   \<and> opener (lots s' ! 4) = opener (lots R_ledger ! p))
          \<and> (\<exists>p<4. predecessor (lots s' ! 5) = Some p
                   \<and> dtopen (lots s' ! 5) = dtopen (lots R_ledger ! p)
                   \<and> opener (lots s' ! 5) = opener (lots R_ledger ! p)))"
proof -
  note T = successors_carry_holding_period
  have ch0: "holding_period_chain (lots T_start)"
    by (simp add: holding_period_chain_def T_start_def empty_session_def)
  have len: "length (lots T_ledger) = 1" "length (lots T_done) = 2"
    by (simp_all add: T_done_def T_ledger_def)
  from T [of T_ledger T_out True T_done T_externals] T_doTransfer
  have old: "\<forall>j<length (lots T_ledger). dtopen (lots T_done ! j) = dtopen (lots T_ledger ! j)
                              \<and> opener (lots T_done ! j) = opener (lots T_ledger ! j)
                              \<and> predecessor (lots T_done ! j) = predecessor (lots T_ledger ! j)"
    and new: "\<forall>j<length (lots T_done). length (lots T_ledger) \<le> j \<longrightarrow>
            (\<exists>p<length (lots T_ledger). predecessor (lots T_done ! j) = Some p
                                  \<and> dtopen (lots T_done ! j) = dtopen (lots T_ledger ! p)
                                  \<and> opener (lots T_done ! j) = opener (lots T_ledger ! p))"
    by blast+
  have o0: "dtopen (lots T_done ! 0) = dtopen (lots T_ledger ! 0)
      \<and> opener (lots T_done ! 0) = opener (lots T_ledger ! 0)"
    using old [rule_format, of 0] len by simp
  have n1: "predecessor (lots T_done ! 1) = Some 0
      \<and> dtopen (lots T_done ! 1) = dtopen (lots T_ledger ! 0)
      \<and> opener (lots T_done ! 1) = opener (lots T_ledger ! 0)"
    using new [rule_format, of 1] len by simp
  from T [of T_start T_buy True T_done T_externals None None] ch0 T_calc
  have ch1: "holding_period_chain (lots T_done)"
    by blast
  have d1: "dtopen (lots T_done ! 1) = mkdate 2005 10 3
      \<and> dtstart (lots T_done ! 1) = mkdate 2005 12 2"
    by (simp add: T_done_def T_ledger_def)
  have r_new: "True \<longrightarrow> invtran_id R2000 \<notin> set (ofxlogs R_ledger)"
    by (simp add: R2000_facts)
  have r_run: "\<exists>s'. returnOfCapital R_ledger R2000 True = Inr s'"
    by (simp add: returnOfCapital_unfold [OF r_new] R2000_totalUnits)
  then obtain r' where r': "returnOfCapital R_ledger R2000 True = Inr r'" ..
  from T [of R_ledger R2000 True r'] r' r_new
  have r_len: "length (lots r') = length (lots R_ledger) + length (retofcap_lots R_ledger R2000)"
    and r_succ: "\<forall>j<length (lots r'). length (lots R_ledger) \<le> j \<longrightarrow>
            (\<exists>p<length (lots R_ledger). predecessor (lots r' ! j) = Some p
                                  \<and> dtopen (lots r' ! j) = dtopen (lots R_ledger ! p)
                                  \<and> opener (lots r' ! j) = opener (lots R_ledger ! p))"
    by blast+
  have r4: "length (lots r') = 5"
    using r_len by (simp add: R2000_lots R2000_facts)
  have r_p: "predecessor (lots r' ! 4) = Some 1
      \<and> dtopen (lots r' ! 4) = dtopen (lots R_ledger ! 1)
      \<and> opener (lots r' ! 4) = opener (lots R_ledger ! 1)"
  proof -
    have b: "\<forall>i\<in>set (retofcap_lots R_ledger R2000). i < length (lots (fst (get_or_create R_ledger R2000)))"
      by (simp add: R2000_lots R2000_facts)
    have "r' = fold (retofcap_step R2000 (ddiv (total R2000) (retofcap_totalUnits R_ledger R2000)))
                  (retofcap_lots R_ledger R2000) (fst (get_or_create R_ledger R2000))"
      using r' by (simp add: returnOfCapital_unfold [OF r_new] R2000_totalUnits)
    then have "lots r' ! 4 = retofcap_successor R2000 (ddiv (total R2000) (retofcap_totalUnits R_ledger R2000)) 1 (lots R_ledger ! 1)"
      using fold_supersede [of lots "retofcap_step R2000 (ddiv (total R2000) (retofcap_totalUnits R_ledger R2000))"
          "retofcap_ended R2000" "retofcap_successor R2000 (ddiv (total R2000) (retofcap_totalUnits R_ledger R2000))"
          "retofcap_lots R_ledger R2000" "fst (get_or_create R_ledger R2000)",
          OF lots_retofcap_step _ b]
      by (simp add: R2000_lots R2000_facts)
    then show ?thesis
      by (simp add: retofcap_successor_def)
  qed
  have s_new: "invtran_id SPLIT2 \<notin> set (ofxlogs R_ledger)"
    by (simp add: SPLIT2_facts)
  have "\<exists>s'. split R_ledger SPLIT2 = Inr s'"
    by (simp add: split_unfold [OF s_new] SPLIT2_facts SPLIT2_arith SPLIT2_newUnits)
  then obtain q' where q': "split R_ledger SPLIT2 = Inr q'" ..
  from T [of R_ledger SPLIT2 True q'] q' s_new
  have q_len: "length (lots q') = length (lots R_ledger) + length (split_lots R_ledger SPLIT2)"
    and q_succ: "\<forall>j<length (lots q'). length (lots R_ledger) \<le> j \<longrightarrow>
            (\<exists>p<length (lots R_ledger). predecessor (lots q' ! j) = Some p
                                  \<and> dtopen (lots q' ! j) = dtopen (lots R_ledger ! p)
                                  \<and> opener (lots q' ! j) = opener (lots R_ledger ! p))"
    by blast+
  have q6: "length (lots q') = 6"
    using q_len by (simp add: SPLIT2_lots SPLIT2_facts)
  have q4: "\<exists>p<4. predecessor (lots q' ! 4) = Some p
                   \<and> dtopen (lots q' ! 4) = dtopen (lots R_ledger ! p)
                   \<and> opener (lots q' ! 4) = opener (lots R_ledger ! p)"
    using q_succ [rule_format, of 4] q6 by (simp add: SPLIT2_facts)
  have q5: "\<exists>p<4. predecessor (lots q' ! 5) = Some p
                   \<and> dtopen (lots q' ! 5) = dtopen (lots R_ledger ! p)
                   \<and> opener (lots q' ! 5) = opener (lots R_ledger ! p)"
    using q_succ [rule_format, of 5] q6 by (simp add: SPLIT2_facts)
  show ?thesis
    using T_doTransfer T_calc ch0 ch1 len o0 n1 d1 T_chain r' r4 r_p q' q6 q4 q5
    by blast
qed

section \<open>Transactions in the event log\<close>



end
